theory Spec2Isabelle
  imports Complex_Main "HOL-Library.AList" "HOL-Library.Char_ord" "HOL-Library.List_Lexorder"
    "HOL-Library.Multiset"
begin

section \<open>The DeFi store of the frontend (store/defi/index.ts)\<close>

text \<open>
  The store keeps the raw overview payload \<open>allProtocols\<close> and derives from it, and from the
  state of the protocol adapters, the account list \<open>defiAccounts\<close> and the protocol rollup
  \<open>overview\<close>. Its two fetch operations drive a per-section loading status.

  Conventions of the embedding.
  \<^item> A JavaScript object used as a dictionary is an association list in the enumeration
    order of its keys: insertion order, since no key of this store is an array index (a
    canonical decimal numeral). Writing an existing key keeps its position
    (\<open>AList.update\<close>), writing a new key appends it. The keys of \<open>accounts\<close> are Ethereum
    addresses, which never name a property of \<open>Object.prototype\<close>; the keys of \<open>summary\<close>
    are protocol names of the payload, so the read \<open>summary[protocol]\<close> is modelled with the
    inherited properties.
  \<^item> A \<open>BigNumber\<close> is an arbitrary-precision decimal; \<open>plus\<close> is exact, so the values are
    modelled as rationals with \<open>+\<close>. An optional field is an \<open>option\<close>. A \<open>BigNumber\<close> is an
    object, hence truthy whatever its value; only \<open>undefined\<close> is falsy.
  \<^item> Constants and collaborators imported from modules outside this file (display names,
    identifiers, icons, translations, the lending store, the task and schema layers) are
    parameters of the model. The few helpers whose behaviour a property depends on are
    modelled from the specification, each marked as such.
\<close>

subsection \<open>Accounts per protocol: \<open>defiAccounts\<close>\<close>

datatype DefiProtocol =
  YEARN_VAULTS | YEARN_VAULTS_V2 | AAVE | MAKERDAO_DSR | MAKERDAO_VAULTS | COMPOUND | UNISWAP | LIQUITY

datatype Blockchain = ETH

record DefiAccount =
  address :: string
  chain :: Blockchain
  protocols :: "DefiProtocol list"

text \<open>\<open>AddressIndexed<T>\<close>: an object keyed by address.\<close>

type_synonym 'v AddressIndexed = "(string \<times> 'v) list"

text \<open>
  The parameter \<open>protocols\<close> of \<open>defiAccounts\<close> is called \<open>wanted\<close> below, since
  \<open>protocols\<close> is also the field of \<open>DefiAccount\<close>.
\<close>

text \<open>The third argument of \<open>getProtocolAddresses\<close>: \<open>AddressIndexed<any> | string[]\<close>.\<close>

datatype 'v history = AddressArray "string list" | Indexed "'v AddressIndexed"

record CompoundEvent =
  eventAddress :: string

text \<open>The reactive state of the adapters that \<open>defiAccounts\<close> reads.\<close>

record 'v adapters =
  aaveBalances :: "'v AddressIndexed"
  aaveHistory :: "'v history"
  compoundBalances :: "'v AddressIndexed"
  compoundHistory_events :: "CompoundEvent list"
  yearnV1Balances :: "'v AddressIndexed"
  yearnV1History :: "'v history"
  yearnV2Balances :: "'v AddressIndexed"
  yearnV2History :: "'v history"
  dsrBalances_balances :: "'v AddressIndexed"
  dsrHistory :: "'v history"

definition Object_keys :: "('k \<times> 'v) list \<Rightarrow> 'k list" where
  "Object_keys obj = map fst obj"

definition Object_values :: "('k \<times> 'v) list \<Rightarrow> 'v list" where
  "Object_values obj = map snd obj"

text \<open>
  Modelled from the spec: \<open>uniqueStrings\<close> of \<open>@/utils/data\<close>, the callback given to
  \<open>Array.filter\<close>, is not in this file. The spec asks for "a deduplicated address list";
  the model keeps the first occurrence of every string.
\<close>

fun uniqueStrings :: "string list \<Rightarrow> string list" where
  "uniqueStrings [] = []"
| "uniqueStrings (x # xs) = x # uniqueStrings (filter (\<lambda>y. y \<noteq> x) xs)"

definition getProtocolAddresses ::
  "DefiProtocol list \<Rightarrow> DefiProtocol \<Rightarrow> 'v AddressIndexed \<Rightarrow> 'v history \<Rightarrow> string list" where
  "getProtocolAddresses wanted protocol balances history =
     (if wanted = [] \<or> protocol \<in> set wanted
      then uniqueStrings (Object_keys balances @
             (case history of AddressArray h \<Rightarrow> h | Indexed h \<Rightarrow> Object_keys h))
      else [])"

text \<open>
  The object \<open>addresses\<close>: the literal creates the five keys, \<open>MAKERDAO_DSR\<close> first; the five
  assignments that follow overwrite the values and leave the keys where they are.
\<close>

definition addresses_of ::
  "'v adapters \<Rightarrow> DefiProtocol list \<Rightarrow> (DefiProtocol \<times> string list) list" where
  "addresses_of st wanted =
     (let addresses = [(MAKERDAO_DSR, []), (AAVE, []), (COMPOUND, []),
                       (YEARN_VAULTS, []), (YEARN_VAULTS_V2, [])];
          addresses = AList.update AAVE
            (getProtocolAddresses wanted AAVE (aaveBalances st) (aaveHistory st)) addresses;
          addresses = AList.update COMPOUND
            (getProtocolAddresses wanted COMPOUND (compoundBalances st)
               (AddressArray (map eventAddress (compoundHistory_events st)))) addresses;
          addresses = AList.update YEARN_VAULTS
            (getProtocolAddresses wanted YEARN_VAULTS (yearnV1Balances st) (yearnV1History st))
            addresses;
          addresses = AList.update YEARN_VAULTS_V2
            (getProtocolAddresses wanted YEARN_VAULTS_V2 (yearnV2Balances st) (yearnV2History st))
            addresses;
          addresses = AList.update MAKERDAO_DSR
            (getProtocolAddresses wanted MAKERDAO_DSR (dsrBalances_balances st) (dsrHistory st))
            addresses
      in addresses)"

text \<open>The body of the inner loop: one address of one protocol.\<close>

definition add_account ::
  "DefiProtocol \<Rightarrow> (string \<times> DefiAccount) list \<Rightarrow> string \<Rightarrow> (string \<times> DefiAccount) list" where
  "add_account selectedProtocol accounts a =
     (case map_of accounts a of
        Some account \<Rightarrow>
          AList.update a (account\<lparr>protocols := protocols account @ [selectedProtocol]\<rparr>) accounts
      | None \<Rightarrow>
          AList.update a \<lparr>address = a, chain = ETH, protocols = [selectedProtocol]\<rparr> accounts)"

fun accumulate ::
  "(DefiProtocol \<times> string list) list \<Rightarrow> (string \<times> DefiAccount) list \<Rightarrow> (string \<times> DefiAccount) list"
  where
  "accumulate [] accounts = accounts"
| "accumulate ((protocol, perProtocolAddresses) # rest) accounts =
     accumulate rest (foldl (add_account protocol) accounts perProtocolAddresses)"

definition defiAccounts :: "'v adapters \<Rightarrow> DefiProtocol list \<Rightarrow> DefiAccount list" where
  "defiAccounts st wanted = Object_values (accumulate (addresses_of st wanted) [])"

text \<open>The order in which \<open>for (const protocol in addresses)\<close> visits the protocols.\<close>

definition iteration_order :: "DefiProtocol list" where
  "iteration_order = [MAKERDAO_DSR, AAVE, COMPOUND, YEARN_VAULTS, YEARN_VAULTS_V2]"

text \<open>
  What the claims call "the addresses a protocol references": the balance keys and the
  history addresses of its adapter. The three protocols without an adapter here reference
  nothing.
\<close>

definition history_addresses :: "'v history \<Rightarrow> string set" where
  "history_addresses h = (case h of AddressArray xs \<Rightarrow> set xs | Indexed m \<Rightarrow> fst ` set m)"

fun referenced :: "'v adapters \<Rightarrow> DefiProtocol \<Rightarrow> string set" where
  "referenced st AAVE = fst ` set (aaveBalances st) \<union> history_addresses (aaveHistory st)"
| "referenced st COMPOUND =
     fst ` set (compoundBalances st) \<union> eventAddress ` set (compoundHistory_events st)"
| "referenced st YEARN_VAULTS =
     fst ` set (yearnV1Balances st) \<union> history_addresses (yearnV1History st)"
| "referenced st YEARN_VAULTS_V2 =
     fst ` set (yearnV2Balances st) \<union> history_addresses (yearnV2History st)"
| "referenced st MAKERDAO_DSR =
     fst ` set (dsrBalances_balances st) \<union> history_addresses (dsrHistory st)"
| "referenced st _ = {}"

definition selected :: "DefiProtocol list \<Rightarrow> DefiProtocol \<Rightarrow> bool" where
  "selected wanted p \<longleftrightarrow> wanted = [] \<or> p \<in> set wanted"

text \<open>
  The closed form of the accumulation loop: after the rows \<open>t\<close> of \<open>addresses\<close>, the account
  of an address lists the protocols of the rows that hold it, in row order, and the accounts
  stand in the order in which the addresses were first met.
\<close>

definition protos :: "(DefiProtocol \<times> string list) list \<Rightarrow> string \<Rightarrow> DefiProtocol list" where
  "protos t a = map fst (filter (\<lambda>pa. a \<in> set (snd pa)) t)"

definition account_of :: "(DefiProtocol \<times> string list) list \<Rightarrow> string \<Rightarrow> DefiAccount" where
  "account_of t a = \<lparr>address = a, chain = ETH, protocols = protos t a\<rparr>"

definition accounts_of :: "(DefiProtocol \<times> string list) list \<Rightarrow> (string \<times> DefiAccount) list" where
  "accounts_of t = map (\<lambda>a. (a, account_of t a)) (uniqueStrings (concat (map snd t)))"

definition eligible :: "DefiProtocol set" where
  "eligible = {AAVE, COMPOUND, YEARN_VAULTS, YEARN_VAULTS_V2, MAKERDAO_DSR}"

subsection \<open>The protocol rollup: \<open>overview\<close>\<close>

datatype Status = NOT_LOADED | LOADING | PARTIALLY_LOADED | REFRESHING | LOADED

datatype Section =
  DEFI_OVERVIEW | DEFI_BALANCES | DEFI_AAVE_BALANCES | DEFI_COMPOUND_BALANCES
| DEFI_YEARN_VAULTS_BALANCES | DEFI_YEARN_VAULTS_V2_BALANCES | DEFI_LIQUITY_BALANCES
| DEFI_LENDING_HISTORY

record Balance =
  amount :: rat
  usdValue :: rat

record TokenInfo =
  tokenName :: string
  tokenSymbol :: string

text \<open>\<open>entry.baseBalance\<close>: the token of \<open>TokenInfo\<close> with its address and balance.\<close>

record DefiAsset = TokenInfo +
  tokenAddress :: string
  balance :: Balance

record ProtocolInfo =
  name :: string
  icon :: string

datatype BalanceType = Asset | Liability

text \<open>
  Entries and summaries both carry a field \<open>protocol\<close> with the name and icon; the common
  field is a record of its own that both extend.
\<close>

record WithProtocol =
  protocol :: ProtocolInfo

record DefiProtocolData = WithProtocol +
  balanceType :: BalanceType
  baseBalance :: DefiAsset

type_synonym AllDefiProtocols = "(string \<times> DefiProtocolData list) list"

record DefiProtocolSummary = WithProtocol +
  tokenInfo :: "TokenInfo option"
  assets :: "DefiAsset list"
  liabilitiesUrl :: "string option"
  depositsUrl :: "string option"
  deposits :: bool
  liabilities :: bool
  totalCollateralUsd :: rat
  totalDebtUsd :: rat
  totalLendingDepositUsd :: rat
  balanceUsd :: "rat option"

text \<open>
  What \<open>overview\<close> reads from outside this file: the display names of
  \<open>@/types/defi/protocols\<close> (suffixed \<open>_name\<close>, since \<open>DefiProtocol\<close> has members of the same
  names), the string value of each \<open>DefiProtocol\<close> member, \<open>getProtocolIcon\<close>, the translation
  of \<open>defi_overview.multiple_assets\<close>, the two getters of the lending store (\<open>loanSummary\<close>
  returns the pair \<open>totalCollateralUsd\<close>, \<open>totalDebt\<close>), and the status of every section.
\<close>

record env =
  AAVE_name :: string
  COMPOUND_name :: string
  YEARN_FINANCE_VAULTS_name :: string
  YEARN_FINANCE_VAULTS_V2_name :: string
  LIQUITY_name :: string
  MAKERDAO_DSR_name :: string
  MAKERDAO_VAULTS_name :: string
  protocol_id :: "DefiProtocol \<Rightarrow> string"
  getProtocolIcon :: "string \<Rightarrow> string"
  multiple_assets :: string
  loanSummary :: "DefiProtocol list \<Rightarrow> rat \<times> rat"
  totalLendingDeposit :: "DefiProtocol list \<Rightarrow> string list \<Rightarrow> rat"
  getStatus :: "Section \<Rightarrow> Status"

datatype error = TypeError

definition shouldDisplay :: "DefiProtocolSummary \<Rightarrow> bool" where
  "shouldDisplay summary =
     (let lending = totalLendingDepositUsd summary > 0;
          debt = totalDebtUsd summary > 0;
          balance' = (case balanceUsd summary of None \<Rightarrow> False | Some b \<Rightarrow> b > 0);
          collateral = totalCollateralUsd summary > 0
      in lending \<or> debt \<or> balance' \<or> collateral)"

text \<open>An omitted \<open>noLiabilities\<close> or \<open>noDeposits\<close> is \<open>undefined\<close>, which is falsy: \<open>False\<close>.\<close>

definition protocolSummary ::
  "env \<Rightarrow> DefiProtocol \<Rightarrow> Section \<Rightarrow> string \<Rightarrow> bool \<Rightarrow> bool \<Rightarrow> DefiProtocolSummary option" where
  "protocolSummary e p section' name' noLiabilities noDeposits =
     (let currentStatus = getStatus e section' in
      if currentStatus \<noteq> LOADED \<and> currentStatus \<noteq> REFRESHING then None
      else
        let filter' = [p];
            (totalCollateralUsd', totalDebt) =
               (if noLiabilities then (0, 0) else loanSummary e filter')
        in Some
          \<lparr>protocol = \<lparr>name = name', icon = getProtocolIcon e name'\<rparr>,
           tokenInfo = None,
           assets = [],
           liabilitiesUrl =
             (if noLiabilities then None
              else Some (''/defi/liabilities?protocol='' @ protocol_id e p)),
           depositsUrl =
             (if noDeposits then None
              else Some (''/defi/deposits?protocol='' @ protocol_id e p)),
           deposits = \<not> noDeposits,
           liabilities = \<not> noLiabilities,
           totalCollateralUsd = totalCollateralUsd',
           totalDebtUsd = totalDebt,
           totalLendingDepositUsd =
             (if noDeposits then 0 else totalLendingDeposit e filter' []),
           balanceUsd = None\<rparr>)"

text \<open>\<open>Array.prototype.findIndex\<close>: the first index whose element passes, or \<open>-1\<close>.\<close>

fun findIndex :: "('a \<Rightarrow> bool) \<Rightarrow> 'a list \<Rightarrow> int" where
  "findIndex P [] = -1"
| "findIndex P (x # xs) =
     (if P x then 0 else (let i = findIndex P xs in if i < 0 then -1 else i + 1))"

type_synonym summaries = "(string \<times> DefiProtocolSummary) list"

text \<open>
  The four branches at the head of the loop body: the summarizer's result is stored under
  the entry's protocol name when it is defined and \<open>shouldDisplay\<close> accepts it.
\<close>

definition store_special ::
  "string \<Rightarrow> DefiProtocolSummary option \<Rightarrow> summaries \<Rightarrow> summaries" where
  "store_special key special summary =
     (case special of
        None \<Rightarrow> summary
      | Some s \<Rightarrow> if shouldDisplay s then AList.update key s summary else summary)"

text \<open>
  The read \<open>summary[protocol]\<close> on the plain object \<open>summary\<close>. The protocol name of an entry
  is a string of the payload, so the read may meet a property that every plain object
  inherits from \<open>Object.prototype\<close>: it then yields a function (the prototype itself for
  \<open>__proto__\<close>), which is truthy and has none of the fields of a summary. An own property
  shadows an inherited one.
\<close>

definition Object_prototype :: "string list" where
  "Object_prototype =
     [''constructor'', ''__proto__'', ''hasOwnProperty'', ''isPrototypeOf'',
      ''propertyIsEnumerable'', ''toString'', ''toLocaleString'', ''valueOf'',
      ''__defineGetter__'', ''__defineSetter__'', ''__lookupGetter__'', ''__lookupSetter__'']"

datatype 'a property = Own 'a | Inherited | Undefined

definition get_property :: "(string \<times> 'a) list \<Rightarrow> string \<Rightarrow> 'a property" where
  "get_property obj key =
     (case map_of obj key of
        Some v \<Rightarrow> Own v
      | None \<Rightarrow> if key \<in> set Object_prototype then Inherited else Undefined)"

text \<open>
  Lines 280-303: the first entry of a protocol seeds its summary; a later entry whose token
  name differs from the stored one rewrites the stored token. Writing through a \<open>null\<close>
  \<open>tokenInfo\<close> throws. So does an entry whose name is inherited and not yet an own key:
  \<open>!summary[protocol]\<close> is false, \<open>summary[protocol].tokenInfo?.tokenName\<close> is \<open>undefined\<close> and
  differs from the token name of the entry, and the write through the \<open>undefined\<close>
  \<open>tokenInfo\<close> at line 301 throws.
\<close>

definition new_summary :: "env \<Rightarrow> DefiProtocolData \<Rightarrow> DefiProtocolSummary" where
  "new_summary e entry =
     \<lparr>protocol = (protocol entry)\<lparr>icon := getProtocolIcon e (name (protocol entry))\<rparr>,
      tokenInfo = Some \<lparr>tokenName = tokenName (baseBalance entry),
                        tokenSymbol = tokenSymbol (baseBalance entry)\<rparr>,
      assets = [],
      liabilitiesUrl = None,
      depositsUrl = None,
      deposits = False,
      liabilities = False,
      totalCollateralUsd = 0,
      totalDebtUsd = 0,
      totalLendingDepositUsd = 0,
      balanceUsd = None\<rparr>"

definition collapsed :: "env \<Rightarrow> TokenInfo \<Rightarrow> TokenInfo" where
  "collapsed e info = info\<lparr>tokenName := multiple_assets e, tokenSymbol := ''''\<rparr>"

definition seed_or_collapse ::
  "env \<Rightarrow> string \<Rightarrow> DefiProtocolData \<Rightarrow> summaries \<Rightarrow> error + summaries" where
  "seed_or_collapse e protocolName entry summary =
     (case get_property summary protocolName of
        Undefined \<Rightarrow> Inr (AList.update protocolName (new_summary e entry) summary)
      | Inherited \<Rightarrow> Inl TypeError
      | Own s \<Rightarrow>
          if map_option tokenName (tokenInfo s) \<noteq> Some (tokenName (baseBalance entry))
          then (case tokenInfo s of
                  None \<Rightarrow> Inl TypeError
                | Some info \<Rightarrow>
                    Inr (AList.update protocolName (s\<lparr>tokenInfo := Some (collapsed e info)\<rparr>) summary))
          else Inr summary)"

text \<open>
  Lines 305-328: an \<open>Asset\<close> entry adds to the running balance and to the asset list of the
  summary stored for the protocol; without a stored summary the reads of line 307 or 309
  throw.
\<close>

definition add_asset :: "DefiProtocolData \<Rightarrow> DefiProtocolSummary \<Rightarrow> DefiProtocolSummary" where
  "add_asset entry s =
     (let previousBalance = (case balanceUsd s of None \<Rightarrow> 0 | Some b \<Rightarrow> b);
          s = s\<lparr>balanceUsd := Some (previousBalance + usdValue (balance (baseBalance entry)))\<rparr>;
          assetIndex = findIndex (\<lambda>asset. tokenAddress asset = tokenAddress (baseBalance entry))
                         (assets s)
      in if assetIndex \<ge> 0 then
           let asset = assets s ! nat assetIndex;
               usdValueSum = usdValue (balance (baseBalance entry)) + usdValue (balance asset);
               amountSum = amount (balance (baseBalance entry)) + amount (balance asset)
           in s\<lparr>assets := (assets s)[nat assetIndex :=
                  asset\<lparr>balance := \<lparr>amount = amountSum, usdValue = usdValueSum\<rparr>\<rparr>]\<rparr>
         else s\<lparr>assets := assets s @ [baseBalance entry]\<rparr>)"

definition add_balance ::
  "string \<Rightarrow> DefiProtocolData \<Rightarrow> summaries \<Rightarrow> error + summaries" where
  "add_balance protocolName entry summary =
     (if balanceType entry = Asset then
        (case get_property summary protocolName of
           Own s \<Rightarrow> Inr (AList.update protocolName (add_asset entry s) summary)
         | Inherited \<Rightarrow> Inl TypeError
         | Undefined \<Rightarrow> Inl TypeError)
      else Inr summary)"

text \<open>The body of the inner loop, for one entry.\<close>

definition add_entry :: "env \<Rightarrow> summaries \<Rightarrow> DefiProtocolData \<Rightarrow> error + summaries" where
  "add_entry e summary entry =
     (let protocolName = name (protocol entry) in
      if protocolName = AAVE_name e then
        Inr (store_special protocolName
               (protocolSummary e AAVE DEFI_AAVE_BALANCES protocolName False False) summary)
      else if protocolName = COMPOUND_name e then
        Inr (store_special protocolName
               (protocolSummary e COMPOUND DEFI_COMPOUND_BALANCES protocolName False False) summary)
      else if protocolName = YEARN_FINANCE_VAULTS_name e then
        Inr (store_special protocolName
               (protocolSummary e YEARN_VAULTS DEFI_YEARN_VAULTS_BALANCES protocolName True False)
               summary)
      else if protocolName = LIQUITY_name e then
        Inr (store_special protocolName
               (protocolSummary e LIQUITY DEFI_LIQUITY_BALANCES protocolName False True) summary)
      else
        (case seed_or_collapse e protocolName entry summary of
           Inl err \<Rightarrow> Inl err
         | Inr summary \<Rightarrow> add_balance protocolName entry summary))"

fun add_entries :: "env \<Rightarrow> summaries \<Rightarrow> DefiProtocolData list \<Rightarrow> error + summaries" where
  "add_entries e summary [] = Inr summary"
| "add_entries e summary (entry # rest) =
     (case add_entry e summary entry of
        Inl err \<Rightarrow> Inl err
      | Inr summary \<Rightarrow> add_entries e summary rest)"

text \<open>The outer loop over \<open>Object.keys(defiProtocols)\<close>.\<close>

fun add_addresses :: "env \<Rightarrow> summaries \<Rightarrow> AllDefiProtocols \<Rightarrow> error + summaries" where
  "add_addresses e summary [] = Inr summary"
| "add_addresses e summary ((a, entries) # rest) =
     (case add_entries e summary entries of
        Inl err \<Rightarrow> Inl err
      | Inr summary \<Rightarrow> add_addresses e summary rest)"

text \<open>
  Lines 332-390, after the loop: the two MakerDAO summaries and the Yearn v2 summary are
  stored under the string value of their \<open>DefiProtocol\<close> member. \<open>getStatus()\<close> reads the
  section the status updater was created for, \<open>DEFI_OVERVIEW\<close>.
\<close>

definition makerDAODSRSummary :: "env \<Rightarrow> DefiProtocolSummary" where
  "makerDAODSRSummary e =
     (let filter' = [MAKERDAO_DSR] in
      \<lparr>protocol = \<lparr>name = MAKERDAO_DSR_name e,
                    icon = getProtocolIcon e (MAKERDAO_DSR_name e)\<rparr>,
       tokenInfo = None,
       assets = [],
       liabilitiesUrl = None,
       depositsUrl = Some ''/defi/deposits?protocol=makerdao'',
       deposits = True,
       liabilities = False,
       totalCollateralUsd = 0,
       totalDebtUsd = 0,
       totalLendingDepositUsd = totalLendingDeposit e filter' [],
       balanceUsd = None\<rparr>)"

definition makerDAOVaultSummary :: "env \<Rightarrow> DefiProtocolSummary" where
  "makerDAOVaultSummary e =
     (let (totalCollateralUsd', totalDebt) = loanSummary e [MAKERDAO_VAULTS] in
      \<lparr>protocol = \<lparr>name = MAKERDAO_VAULTS_name e,
                    icon = getProtocolIcon e (MAKERDAO_VAULTS_name e)\<rparr>,
       tokenInfo = None,
       assets = [],
       liabilitiesUrl = Some ''/defi/liabilities?protocol=makerdao'',
       depositsUrl = None,
       deposits = False,
       liabilities = True,
       totalCollateralUsd = totalCollateralUsd',
       totalDebtUsd = totalDebt,
       totalLendingDepositUsd = 0,
       balanceUsd = None\<rparr>)"

definition add_lending :: "env \<Rightarrow> summaries \<Rightarrow> summaries" where
  "add_lending e summary =
     (let overviewStatus = getStatus e DEFI_OVERVIEW in
      if overviewStatus = LOADED \<or> overviewStatus = REFRESHING then
        let summary = (if shouldDisplay (makerDAODSRSummary e)
                       then AList.update (protocol_id e MAKERDAO_DSR) (makerDAODSRSummary e) summary
                       else summary);
            summary = (if shouldDisplay (makerDAOVaultSummary e)
                       then AList.update (protocol_id e MAKERDAO_VAULTS) (makerDAOVaultSummary e)
                              summary
                       else summary);
            yearnV2Summary = protocolSummary e YEARN_VAULTS_V2 DEFI_YEARN_VAULTS_V2_BALANCES
                               (YEARN_FINANCE_VAULTS_V2_name e) True False
        in store_special (protocol_id e YEARN_VAULTS_V2) yearnV2Summary summary
      else summary)"

text \<open>
  \<open>sortBy\<close> of lodash is a stable sort in ascending order of the key; strings compare
  code unit by code unit.
\<close>

definition sortBy :: "('a \<Rightarrow> string) \<Rightarrow> 'a list \<Rightarrow> 'a list" where
  "sortBy key xs = sort_key key xs"

text \<open>The final filter: a \<open>BigNumber\<close> is truthy when it is there, zero or not.\<close>

definition listed :: "DefiProtocolSummary \<Rightarrow> bool" where
  "listed v \<longleftrightarrow> balanceUsd v \<noteq> None \<or> deposits v \<or> liabilities v"

definition overview :: "env \<Rightarrow> AllDefiProtocols \<Rightarrow> error + DefiProtocolSummary list" where
  "overview e defiProtocols =
     (case add_addresses e [] defiProtocols of
        Inl err \<Rightarrow> Inl err
      | Inr summary \<Rightarrow>
          Inr (filter listed
                 (sortBy (\<lambda>v. name (protocol v)) (Object_values (add_lending e summary)))))"

subsection \<open>The generic path, one protocol at a time\<close>

text \<open>
  The names that the loop body intercepts before the generic path, and what the generic
  path does to the summary of one protocol when it meets one of its entries.
\<close>

definition specials :: "env \<Rightarrow> string set" where
  "specials e = {AAVE_name e, COMPOUND_name e, YEARN_FINANCE_VAULTS_name e, LIQUITY_name e}"

definition next_summary ::
  "env \<Rightarrow> DefiProtocolSummary option \<Rightarrow> DefiProtocolData \<Rightarrow> DefiProtocolSummary" where
  "next_summary e previous entry =
     (let s = (case previous of
                 None \<Rightarrow> new_summary e entry
               | Some s \<Rightarrow>
                   if map_option tokenName (tokenInfo s) \<noteq> Some (tokenName (baseBalance entry))
                   then s\<lparr>tokenInfo := map_option (collapsed e) (tokenInfo s)\<rparr>
                   else s)
      in if balanceType entry = Asset then add_asset entry s else s)"

text \<open>The entries of protocol \<open>p\<close> in a sequence of entries, and its \<open>Asset\<close> entries.\<close>

definition entries_of :: "string \<Rightarrow> DefiProtocolData list \<Rightarrow> DefiProtocolData list" where
  "entries_of p entries = filter (\<lambda>entry. name (protocol entry) = p) entries"

definition asset_entries :: "string \<Rightarrow> DefiProtocolData list \<Rightarrow> DefiProtocolData list" where
  "asset_entries p entries =
     filter (\<lambda>entry. name (protocol entry) = p \<and> balanceType entry = Asset) entries"

definition asset_entries_at ::
  "string \<Rightarrow> string \<Rightarrow> DefiProtocolData list \<Rightarrow> DefiProtocolData list" where
  "asset_entries_at p a entries =
     filter (\<lambda>entry. tokenAddress (baseBalance entry) = a) (asset_entries p entries)"

text \<open>
  The summary that the generic path builds from the entries of one protocol, taken in order,
  and the summary of protocol \<open>p\<close> in a sequence of entries of any protocols.
\<close>

definition summarize :: "env \<Rightarrow> DefiProtocolData list \<Rightarrow> DefiProtocolSummary option" where
  "summarize e entries = foldl (\<lambda>previous entry. Some (next_summary e previous entry)) None entries"

definition generic_summary ::
  "env \<Rightarrow> string \<Rightarrow> DefiProtocolData list \<Rightarrow> DefiProtocolSummary option" where
  "generic_summary e p entries = summarize e (entries_of p entries)"

text \<open>
  What the loop keeps true of the map: a summary stored under a name that the loop does not
  intercept has a token, so that the write through the \<open>tokenInfo\<close> of a stored summary
  never throws.
\<close>

definition generic_ok :: "env \<Rightarrow> summaries \<Rightarrow> bool" where
  "generic_ok e summary \<longleftrightarrow>
     (\<forall>k s. map_of summary k = Some s \<longrightarrow> k \<notin> specials e \<longrightarrow> tokenInfo s \<noteq> None)"

text \<open>
  Lines 309-327 as a function of the asset list alone: the balance of the entry is added to
  the first slot with its token address, or the entry's \<open>baseBalance\<close> becomes the last slot.
\<close>

fun merge_asset :: "DefiAsset \<Rightarrow> DefiAsset list \<Rightarrow> DefiAsset list" where
  "merge_asset b [] = [b]"
| "merge_asset b (t # ts) =
     (if tokenAddress t = tokenAddress b
      then t\<lparr>balance := \<lparr>amount = amount (balance b) + amount (balance t),
                           usdValue = usdValue (balance b) + usdValue (balance t)\<rparr>\<rparr> # ts
      else t # merge_asset b ts)"

text \<open>
  The token shown for a protocol with the entries \<open>x # xs\<close>: the token of the first entry
  while every entry carries its name, the "multiple assets" label otherwise.
\<close>

fun token_display :: "env \<Rightarrow> DefiProtocolData list \<Rightarrow> TokenInfo option" where
  "token_display e [] = None"
| "token_display e (x # xs) =
     Some (if \<forall>y \<in> set xs. tokenName (baseBalance y) = tokenName (baseBalance x)
           then \<lparr>tokenName = tokenName (baseBalance x), tokenSymbol = tokenSymbol (baseBalance x)\<rparr>
           else \<lparr>tokenName = multiple_assets e, tokenSymbol = ''''\<rparr>)"




subsection \<open>Fetching the overview: \<open>fetchDefiBalances\<close> and \<open>fetchAllDefi\<close>\<close>

text \<open>
  A thrown value, with its \<open>message\<close>; the settled state of the promise an \<open>async\<close> function
  returns; a translated text, kept as the call of \<open>tc\<close> that produces it (the key and the
  named parameters), since the translations are not part of this file.
\<close>

datatype failure = Failure (failure_message: string)

datatype promise = Fulfilled | Rejected failure

datatype i18n = Tc string "(string \<times> string) list"

record Notification =
  title :: i18n
  message :: i18n
  display :: bool

text \<open>
  The state the two operations work on: the payload, the status of every section, and the
  notifications shown so far.
\<close>

record store =
  allProtocols :: AllDefiProtocols
  status :: "Section \<Rightarrow> Status"
  notifications :: "Notification list"

text \<open>
  What one call of \<open>fetchDefiBalances\<close> meets outside: how the submission
  \<open>fetchAllDefiCaller()\<close> settles (a task id, or a rejection), how \<open>awaitTask\<close> settles for a
  task id (the raw result, or a rejection), and the schema \<open>AllDefiProtocols.parse\<close>, which
  returns the validated payload or throws.
\<close>

record 'r backend =
  fetchAllDefiCaller :: "failure + nat"
  awaitTask :: "nat \<Rightarrow> failure + 'r"
  parse :: "'r \<Rightarrow> failure + AllDefiProtocols"

text \<open>
  Modelled from the spec: \<open>setStatus\<close> of \<open>useStatusUpdater\<close> is not in this file. It records
  the status of a section ("set status LOADED for the overview-balances section").
\<close>

definition setStatus :: "Status \<Rightarrow> Section \<Rightarrow> store \<Rightarrow> store" where
  "setStatus st section' s = s\<lparr>status := (status s)(section' := st)\<rparr>"

text \<open>
  Modelled from the spec: when a fetch is "in flight" is not defined in this file. The
  lifecycle of a section runs from \<open>LOADING\<close>, or \<open>REFRESHING\<close> on a forced fetch, through
  \<open>PARTIALLY_LOADED\<close> to \<open>LOADED\<close>; the fetch is in flight until \<open>LOADED\<close>.
\<close>

definition in_flight :: "Status \<Rightarrow> bool" where
  "in_flight st \<longleftrightarrow> st = LOADING \<or> st = REFRESHING \<or> st = PARTIALLY_LOADED"

text \<open>
  Modelled from the spec: the guard \<open>fetchDisabled\<close> of \<open>useStatusUpdater\<close> is not in this
  file. "If a fetch for the requested section is already in flight and \<open>refresh\<close> is false,
  no-op."
\<close>

definition fetchDisabled :: "bool \<Rightarrow> Section \<Rightarrow> store \<Rightarrow> bool" where
  "fetchDisabled refresh section' s \<longleftrightarrow> in_flight (status s section') \<and> \<not> refresh"

text \<open>
  Modelled from the spec: \<open>notify\<close> of the notifications store is not in this file. It
  surfaces a notification to the user: the notification joins those shown.
\<close>

definition notify :: "Notification \<Rightarrow> store \<Rightarrow> store" where
  "notify n s = s\<lparr>notifications := notifications s @ [n]\<rparr>"

text \<open>
  The body of the \<open>try\<close> block of \<open>fetchDefiBalances\<close>, up to the value given to \<open>set\<close>: the
  first rejection or throw leaves the block.
\<close>

definition try_fetch :: "'r backend \<Rightarrow> failure + AllDefiProtocols" where
  "try_fetch w =
     (case fetchAllDefiCaller w of
        Inl e \<Rightarrow> Inl e
      | Inr taskId \<Rightarrow>
          (case awaitTask w taskId of
             Inl e \<Rightarrow> Inl e
           | Inr result \<Rightarrow> parse w result))"

text \<open>The \<open>catch\<close> block.\<close>

definition catch_fetch :: "failure \<Rightarrow> store \<Rightarrow> store" where
  "catch_fetch e s =
     (let title' = Tc ''actions.defi.balances.error.title'' [];
          message' = Tc ''actions.defi.balances.error.description''
                       [(''error'', failure_message e)]
      in notify \<lparr>title = title', message = message', display = True\<rparr> s)"

definition fetchDefiBalances :: "'r backend \<Rightarrow> bool \<Rightarrow> store \<Rightarrow> promise \<times> store" where
  "fetchDefiBalances w refresh s =
     (let section' = DEFI_BALANCES in
      if fetchDisabled refresh section' s then (Fulfilled, s)
      else
        let s = setStatus LOADING section' s;
            s = (case try_fetch w of
                   Inr v \<Rightarrow> s\<lparr>allProtocols := v\<rparr>
                 | Inl e \<Rightarrow> catch_fetch e s);
            s = setStatus LOADED section' s
        in (Fulfilled, s))"

subsection \<open>Calls that overlap\<close>

text \<open>
  An \<open>async\<close> function runs without interruption from one \<open>await\<close> to the next; other calls
  run in between. The two operations, cut at their awaits: where a call of
  \<open>fetchDefiBalances\<close> stands, and the three pieces of its body.
\<close>

datatype pc = AwaitSubmission | AwaitTask nat | Returned promise

definition fetchDefiBalances_start :: "bool \<Rightarrow> store \<Rightarrow> store \<times> pc" where
  "fetchDefiBalances_start refresh s =
     (if fetchDisabled refresh DEFI_BALANCES s then (s, Returned Fulfilled)
      else (setStatus LOADING DEFI_BALANCES s, AwaitSubmission))"

definition fetchDefiBalances_failed :: "failure \<Rightarrow> store \<Rightarrow> store \<times> pc" where
  "fetchDefiBalances_failed e s = (setStatus LOADED DEFI_BALANCES (catch_fetch e s), Returned Fulfilled)"

definition fetchDefiBalances_submitted :: "failure + nat \<Rightarrow> store \<Rightarrow> store \<times> pc" where
  "fetchDefiBalances_submitted r s =
     (case r of
        Inl e \<Rightarrow> fetchDefiBalances_failed e s
      | Inr taskId \<Rightarrow> (s, AwaitTask taskId))"

definition fetchDefiBalances_settled ::
  "('r \<Rightarrow> failure + AllDefiProtocols) \<Rightarrow> failure + 'r \<Rightarrow> store \<Rightarrow> store \<times> pc" where
  "fetchDefiBalances_settled parse' r s =
     (case r of
        Inl e \<Rightarrow> fetchDefiBalances_failed e s
      | Inr result \<Rightarrow>
          (case parse' result of
             Inl e \<Rightarrow> fetchDefiBalances_failed e s
           | Inr v \<Rightarrow> (setStatus LOADED DEFI_BALANCES (s\<lparr>allProtocols := v\<rparr>), Returned Fulfilled)))"

text \<open>
  \<open>fetchAllDefi\<close>: the guard and the first status on the section \<open>DEFI_OVERVIEW\<close>, the call of
  \<open>fetchDefiBalances\<close> awaited, then the adapters awaited with \<open>Promise.allSettled\<close>.
\<close>

datatype all_pc = InBalances pc | AwaitAdapters | AllReturned promise

definition fetchAllDefi_start :: "bool \<Rightarrow> store \<Rightarrow> store \<times> all_pc" where
  "fetchAllDefi_start refresh s =
     (if fetchDisabled refresh DEFI_OVERVIEW s then (s, AllReturned Fulfilled)
      else
        let newStatus = (if refresh then REFRESHING else LOADING);
            s = setStatus newStatus DEFI_OVERVIEW s;
            (s, inner) = fetchDefiBalances_start refresh s
        in (s, InBalances inner))"

definition fetchAllDefi_balances_done :: "store \<Rightarrow> store \<times> all_pc" where
  "fetchAllDefi_balances_done s = (setStatus PARTIALLY_LOADED DEFI_OVERVIEW s, AwaitAdapters)"

definition fetchAllDefi_adapters_settled :: "store \<Rightarrow> store \<times> all_pc" where
  "fetchAllDefi_adapters_settled s = (setStatus LOADED DEFI_OVERVIEW s, AllReturned Fulfilled)"

text \<open>A call in progress, with the \<open>refresh\<close> it was given; what wakes a call up.\<close>

datatype thread = Balances bool pc | AllDefi bool all_pc

datatype 'r event =
  SubmissionSettled "failure + nat" | TaskSettled "failure + 'r" | Continue

fun resume ::
  "('r \<Rightarrow> failure + AllDefiProtocols) \<Rightarrow> 'r event \<Rightarrow> thread \<Rightarrow> store \<Rightarrow> (store \<times> thread) option"
  where
  "resume parse' (SubmissionSettled r) (Balances refresh AwaitSubmission) s =
     (let (s, p) = fetchDefiBalances_submitted r s in Some (s, Balances refresh p))"
| "resume parse' (TaskSettled r) (Balances refresh (AwaitTask taskId)) s =
     (let (s, p) = fetchDefiBalances_settled parse' r s in Some (s, Balances refresh p))"
| "resume parse' (SubmissionSettled r) (AllDefi refresh (InBalances AwaitSubmission)) s =
     (let (s, p) = fetchDefiBalances_submitted r s in Some (s, AllDefi refresh (InBalances p)))"
| "resume parse' (TaskSettled r) (AllDefi refresh (InBalances (AwaitTask taskId))) s =
     (let (s, p) = fetchDefiBalances_settled parse' r s in Some (s, AllDefi refresh (InBalances p)))"
| "resume parse' Continue (AllDefi refresh (InBalances (Returned Fulfilled))) s =
     (let (s, p) = fetchAllDefi_balances_done s in Some (s, AllDefi refresh p))"
| "resume parse' Continue (AllDefi refresh AwaitAdapters) s =
     (let (s, p) = fetchAllDefi_adapters_settled s in Some (s, AllDefi refresh p))"
| "resume parse' _ _ s = None"

text \<open>
  One step of the event loop: a new call runs to its first await, a waiting call is woken
  up and runs to its next await, or an adapter works on its own sections and notifications.
\<close>

inductive step ::
  "('r \<Rightarrow> failure + AllDefiProtocols) \<Rightarrow> store \<times> thread list \<Rightarrow> store \<times> thread list \<Rightarrow> bool"
  for parse' :: "'r \<Rightarrow> failure + AllDefiProtocols" where
  call_fetchDefiBalances:
    "fetchDefiBalances_start refresh s = (s', p) \<Longrightarrow>
     step parse' (s, ts) (s', ts @ [Balances refresh p])"
| call_fetchAllDefi:
    "fetchAllDefi_start refresh s = (s', p) \<Longrightarrow>
     step parse' (s, ts) (s', ts @ [AllDefi refresh p])"
| wake:
    "resume parse' ev t s = Some (s', t') \<Longrightarrow>
     step parse' (s, before @ t # after) (s', before @ t' # after)"
| adapter:
    "st DEFI_BALANCES = status s DEFI_BALANCES \<Longrightarrow> st DEFI_OVERVIEW = status s DEFI_OVERVIEW \<Longrightarrow>
     step parse' (s, ts) (s\<lparr>status := st, notifications := notifications s @ ns\<rparr>, ts)"

fun refresh_of :: "thread \<Rightarrow> bool" where
  "refresh_of (Balances refresh _) = refresh"
| "refresh_of (AllDefi refresh _) = refresh"

text \<open>A call whose overview task is submitted and not yet settled.\<close>

fun submitted :: "thread \<Rightarrow> bool" where
  "submitted (Balances _ AwaitSubmission) = True"
| "submitted (Balances _ (AwaitTask _)) = True"
| "submitted (AllDefi _ (InBalances AwaitSubmission)) = True"
| "submitted (AllDefi _ (InBalances (AwaitTask _))) = True"
| "submitted _ = False"

text \<open>
  The invariant of overlapping calls: at most one call has its overview task submitted, and
  while one has, the section \<open>DEFI_BALANCES\<close> is \<open>LOADING\<close>.
\<close>

definition single_flight :: "store \<times> thread list \<Rightarrow> bool" where
  "single_flight c \<longleftrightarrow>
     length (filter submitted (snd c)) \<le> 1 \<and>
     (filter submitted (snd c) \<noteq> [] \<longrightarrow> status (fst c) DEFI_BALANCES = LOADING)"

subsection \<open>Concrete inputs\<close>

text \<open>
  Values for the parameters, used where a property is checked on a concrete input. The
  names and identifiers stand for those of the imported modules.
\<close>

definition example_env :: env where
  "example_env =
     \<lparr>AAVE_name = ''Aave'', COMPOUND_name = ''Compound'',
      YEARN_FINANCE_VAULTS_name = ''yearn.finance Vaults'',
      YEARN_FINANCE_VAULTS_V2_name = ''yearn.finance Vaults V2'',
      LIQUITY_name = ''Liquity'',
      MAKERDAO_DSR_name = ''MakerDAO DSR'', MAKERDAO_VAULTS_name = ''MakerDAO Vaults'',
      protocol_id = (\<lambda>p. case p of
          YEARN_VAULTS \<Rightarrow> ''yearn_vaults'' | YEARN_VAULTS_V2 \<Rightarrow> ''yearn_vaults_v2''
        | AAVE \<Rightarrow> ''aave'' | MAKERDAO_DSR \<Rightarrow> ''makerdao_dsr''
        | MAKERDAO_VAULTS \<Rightarrow> ''makerdao_vaults'' | COMPOUND \<Rightarrow> ''compound''
        | UNISWAP \<Rightarrow> ''uniswap'' | LIQUITY \<Rightarrow> ''liquity''),
      getProtocolIcon = (\<lambda>n. n @ ''.svg''),
      multiple_assets = ''Multiple assets'',
      loanSummary = (\<lambda>_. (0, 0)),
      totalLendingDeposit = (\<lambda>_ _. 0),
      getStatus = (\<lambda>_. LOADED)\<rparr>"

definition example_entry ::
  "string \<Rightarrow> BalanceType \<Rightarrow> string \<Rightarrow> string \<Rightarrow> string \<Rightarrow> rat \<Rightarrow> rat \<Rightarrow> DefiProtocolData" where
  "example_entry p t a n sy amt usd =
     \<lparr>protocol = \<lparr>name = p, icon = ''''\<rparr>, balanceType = t,
      baseBalance = \<lparr>tokenName = n, tokenSymbol = sy, tokenAddress = a,
                     balance = \<lparr>amount = amt, usdValue = usd\<rparr>\<rparr>\<rparr>"


text \<open>Stores and backends: a fresh store, a payload that fails validation, a task that fails.\<close>

definition idle_store :: store where
  "idle_store = \<lparr>allProtocols = [], status = (\<lambda>_. NOT_LOADED), notifications = []\<rparr>"

definition invalid_backend :: "string backend" where
  "invalid_backend =
     \<lparr>fetchAllDefiCaller = Inr 7,
      awaitTask = (\<lambda>_. Inr ''{}''),
      parse = (\<lambda>_. Inl (Failure ''Invalid input''))\<rparr>"

definition unreachable_backend :: "string backend" where
  "unreachable_backend =
     \<lparr>fetchAllDefiCaller = Inr 7,
      awaitTask = (\<lambda>_. Inl (Failure ''timeout'')),
      parse = (\<lambda>_. Inr [])\<rparr>"

definition loading_store :: store where
  "loading_store = setStatus LOADING DEFI_BALANCES idle_store"

definition reject_all :: "string \<Rightarrow> failure + AllDefiProtocols" where
  "reject_all r = Inl (Failure ''Invalid input'')"

text \<open>An adapter state for the concrete checks: one address with Aave and DSR balances.\<close>

definition example_adapters :: "unit adapters" where
  "example_adapters =
     \<lparr>aaveBalances = [(''0xabc'', ())], aaveHistory = Indexed [],
      compoundBalances = [], compoundHistory_events = [\<lparr>eventAddress = ''0xdef''\<rparr>],
      yearnV1Balances = [], yearnV1History = Indexed [],
      yearnV2Balances = [], yearnV2History = Indexed [],
      dsrBalances_balances = [(''0xabc'', ())], dsrHistory = AddressArray [''0xabc'']\<rparr>"

section \<open>Properties of \<open>defiAccounts\<close>\<close>

subsection \<open>Deduplication\<close>

lemma uniqueStrings_filter: "uniqueStrings (filter P xs) = filter P (uniqueStrings xs)"
proof (induction "length xs" arbitrary: xs P rule: less_induct)
  case less
  show ?case
  proof (cases xs)
    case Nil
    then show ?thesis by simp
  next
    case (Cons x ys)
    have short: "length (filter (\<lambda>y. y \<noteq> x) ys) < length xs" "length ys < length xs"
      using Cons by (simp_all add: le_imp_less_Suc)
    show ?thesis
    proof (cases "P x")
      case True
      have "filter (\<lambda>y. y \<noteq> x) (filter P ys) = filter P (filter (\<lambda>y. y \<noteq> x) ys)"
        by (simp add: conj_commute)
      with True Cons less(1)[OF short(1), of P] show ?thesis by simp
    next
      case False
      have "filter P (uniqueStrings (filter (\<lambda>y. y \<noteq> x) ys))
          = filter P (filter (\<lambda>y. y \<noteq> x) (uniqueStrings ys))"
        using less(1)[OF short(2), of "\<lambda>y. y \<noteq> x"] by simp
      also have "\<dots> = filter P (uniqueStrings ys)"
        using False by (auto intro: filter_cong)
      finally show ?thesis
        using False Cons less(1)[OF short(2), of P] by simp
    qed
  qed
qed

lemma set_uniqueStrings: "set (uniqueStrings xs) = set xs"
  by (induction xs rule: uniqueStrings.induct) auto

lemma distinct_uniqueStrings: "distinct (uniqueStrings xs)"
  by (induction xs rule: uniqueStrings.induct) (auto simp: set_uniqueStrings)

lemma uniqueStrings_append:
  "uniqueStrings (xs @ ys) = uniqueStrings xs @ filter (\<lambda>y. y \<notin> set xs) (uniqueStrings ys)"
proof (induction xs arbitrary: ys rule: uniqueStrings.induct)
  case 1
  then show ?case by simp
next
  case (2 x xs)
  have "uniqueStrings ((x # xs) @ ys) = x # uniqueStrings (filter (\<lambda>y. y \<noteq> x) xs @ filter (\<lambda>y. y \<noteq> x) ys)"
    by simp
  also have "\<dots> = x # uniqueStrings (filter (\<lambda>y. y \<noteq> x) xs) @
      filter (\<lambda>y. y \<notin> set (filter (\<lambda>y. y \<noteq> x) xs)) (uniqueStrings (filter (\<lambda>y. y \<noteq> x) ys))"
    using 2 by simp
  also have "filter (\<lambda>y. y \<notin> set (filter (\<lambda>y. y \<noteq> x) xs)) (uniqueStrings (filter (\<lambda>y. y \<noteq> x) ys))
      = filter (\<lambda>y. y \<notin> set (x # xs)) (uniqueStrings ys)"
    by (auto simp: uniqueStrings_filter intro: filter_cong)
  finally show ?case by simp
qed

subsection \<open>The accumulation loop in closed form\<close>

lemma map_of_tabulate: "map_of (map (\<lambda>k. (k, f k)) ks) a = (if a \<in> set ks then Some (f a) else None)"
  by (induction ks) auto

lemma update_tabulate_present:
  "distinct ks \<Longrightarrow> a \<in> set ks \<Longrightarrow>
   AList.update a v (map (\<lambda>k. (k, f k)) ks) = map (\<lambda>k. (k, if k = a then v else f k)) ks"
  by (induction ks) auto

lemma update_tabulate_absent:
  "a \<notin> set ks \<Longrightarrow> AList.update a v (map (\<lambda>k. (k, f k)) ks) = map (\<lambda>k. (k, f k)) ks @ [(a, v)]"
  by (induction ks) auto

lemma protos_snoc:
  "protos (t0 @ [(p, as)]) k = protos t0 k @ (if k \<in> set as then [p] else [])"
  by (simp add: protos_def)

lemma add_account_accounts_of:
  assumes "a \<notin> set as1"
  shows "add_account p (accounts_of (t0 @ [(p, as1)])) a = accounts_of (t0 @ [(p, as1 @ [a])])"
proof -
  let ?c = "concat (map snd t0)"
  let ?ks = "uniqueStrings (?c @ as1)"
  let ?f = "account_of (t0 @ [(p, as1)])"
  let ?g = "account_of (t0 @ [(p, as1 @ [a])])"
  have keys: "uniqueStrings (?c @ as1 @ [a]) = ?ks @ (if a \<in> set ?c then [] else [a])"
    using assms uniqueStrings_append[of "?c @ as1" "[a]"] by simp
  have other: "?g k = ?f k" if "k \<noteq> a" for k
    using that by (simp add: account_of_def protos_snoc)
  have d: "distinct ?ks" by (rule distinct_uniqueStrings)
  show ?thesis
  proof (cases "a \<in> set ?c")
    case True
    then have mem: "a \<in> set ?ks" by (simp add: set_uniqueStrings)
    have new: "?f a\<lparr>protocols := protocols (?f a) @ [p]\<rparr> = ?g a"
      using assms by (simp add: account_of_def protos_snoc)
    have "add_account p (accounts_of (t0 @ [(p, as1)])) a
        = map (\<lambda>k. (k, if k = a then ?g a else ?f k)) ?ks"
      using mem new by (simp add: add_account_def accounts_of_def map_of_tabulate
          update_tabulate_present[OF d mem])
    also have "\<dots> = map (\<lambda>k. (k, ?g k)) ?ks"
      using other by (intro map_cong) auto
    finally show ?thesis using True keys by (simp add: accounts_of_def)
  next
    case False
    then have mem: "a \<notin> set ?ks" using assms by (simp add: set_uniqueStrings)
    have new: "\<lparr>address = a, chain = ETH, protocols = [p]\<rparr> = ?g a"
      using False by (simp add: account_of_def protos_snoc protos_def)
    have "add_account p (accounts_of (t0 @ [(p, as1)])) a
        = map (\<lambda>k. (k, ?f k)) ?ks @ [(a, ?g a)]"
      using mem new by (simp add: add_account_def accounts_of_def map_of_tabulate
          update_tabulate_absent[OF mem])
    also have "map (\<lambda>k. (k, ?f k)) ?ks = map (\<lambda>k. (k, ?g k)) ?ks"
    proof (intro map_cong refl)
      fix k assume "k \<in> set ?ks"
      with mem have "k \<noteq> a" by auto
      then show "(k, ?f k) = (k, ?g k)" by (simp add: other)
    qed
    finally show ?thesis using False keys by (simp add: accounts_of_def)
  qed
qed

lemma accounts_of_empty_row: "accounts_of (t0 @ [(p, [])]) = accounts_of t0"
  by (simp add: accounts_of_def account_of_def protos_snoc)

lemma foldl_add_account:
  "distinct as \<Longrightarrow> foldl (add_account p) (accounts_of t0) as = accounts_of (t0 @ [(p, as)])"
proof (induction as rule: rev_induct)
  case Nil
  then show ?case by (simp add: accounts_of_empty_row)
next
  case (snoc a as)
  then show ?case by (simp add: add_account_accounts_of)
qed

lemma accumulate_accounts_of:
  "\<forall>row \<in> set rest. distinct (snd row) \<Longrightarrow>
   accumulate rest (accounts_of t0) = accounts_of (t0 @ rest)"
proof (induction rest arbitrary: t0)
  case Nil
  then show ?case by simp
next
  case (Cons row rest)
  obtain p as where row: "row = (p, as)" by (cases row)
  with Cons.prems have "distinct as" by simp
  then have "foldl (add_account p) (accounts_of t0) as = accounts_of (t0 @ [(p, as)])"
    by (rule foldl_add_account)
  moreover have "accumulate rest (accounts_of (t0 @ [(p, as)])) = accounts_of ((t0 @ [(p, as)]) @ rest)"
    using Cons.prems by (intro Cons.IH) simp
  ultimately show ?case using row by simp
qed

lemma accounts_of_Nil: "accounts_of [] = []"
  by (simp add: accounts_of_def)

lemma addresses_of_eq:
  "addresses_of st w =
     [(MAKERDAO_DSR, getProtocolAddresses w MAKERDAO_DSR (dsrBalances_balances st) (dsrHistory st)),
      (AAVE, getProtocolAddresses w AAVE (aaveBalances st) (aaveHistory st)),
      (COMPOUND, getProtocolAddresses w COMPOUND (compoundBalances st)
               (AddressArray (map eventAddress (compoundHistory_events st)))),
      (YEARN_VAULTS, getProtocolAddresses w YEARN_VAULTS (yearnV1Balances st) (yearnV1History st)),
      (YEARN_VAULTS_V2, getProtocolAddresses w YEARN_VAULTS_V2 (yearnV2Balances st) (yearnV2History st))]"
  by (simp add: addresses_of_def)

lemma distinct_getProtocolAddresses: "distinct (getProtocolAddresses w p b h)"
  by (simp add: getProtocolAddresses_def distinct_uniqueStrings)

lemma set_getProtocolAddresses:
  "set (getProtocolAddresses w p b h) =
     (if selected w p then fst ` set b \<union> history_addresses h else {})"
  by (auto simp: getProtocolAddresses_def selected_def set_uniqueStrings Object_keys_def
      history_addresses_def split: history.splits)

lemma defiAccounts_eq:
  "defiAccounts st w = map snd (accounts_of (addresses_of st w))"
proof -
  have "\<forall>row \<in> set (addresses_of st w). distinct (snd row)"
    by (simp add: addresses_of_eq distinct_getProtocolAddresses)
  from accumulate_accounts_of[OF this, of "[]"] show ?thesis
    by (simp add: defiAccounts_def Object_values_def accounts_of_Nil)
qed

lemma protos_addresses_of:
  "protos (addresses_of st w) a = filter (\<lambda>p. selected w p \<and> a \<in> referenced st p) iteration_order"
  by (simp add: protos_def addresses_of_eq iteration_order_def set_getProtocolAddresses
      history_addresses_def)

lemma mem_concat_protos: "a \<in> set (concat (map snd t)) \<longleftrightarrow> protos t a \<noteq> []"
  by (induction t) (auto simp: protos_def)

lemma set_iteration_order: "set iteration_order = eligible"
  by (auto simp: iteration_order_def eligible_def)

lemma example_defiAccounts:
  "defiAccounts example_adapters [] =
     [\<lparr>address = ''0xabc'', chain = ETH, protocols = [MAKERDAO_DSR, AAVE]\<rparr>,
      \<lparr>address = ''0xdef'', chain = ETH, protocols = [COMPOUND]\<rparr>]"
  by (simp add: defiAccounts_def addresses_of_def getProtocolAddresses_def example_adapters_def
      Object_keys_def Object_values_def add_account_def)
text \<open>
  C3, as stated, fails: the object \<open>addresses\<close> is created with \<open>MAKERDAO_DSR\<close> as its first
  key, so \<open>for ... in\<close> visits \<open>MAKERDAO_DSR\<close> before \<open>AAVE\<close>. An address with Aave and DSR
  balances gets the protocol list \<open>[MAKERDAO_DSR, AAVE]\<close>.
\<close>

theorem defiAccounts_aave_first_counterexample:
  "''0xabc'' \<in> referenced example_adapters AAVE \<and>
   ''0xabc'' \<in> referenced example_adapters MAKERDAO_DSR \<and>
   defiAccounts example_adapters [] =
     [\<lparr>address = ''0xabc'', chain = ETH, protocols = [MAKERDAO_DSR, AAVE]\<rparr>,
      \<lparr>address = ''0xdef'', chain = ETH, protocols = [COMPOUND]\<rparr>]"
  by (simp add: defiAccounts_def addresses_of_def getProtocolAddresses_def example_adapters_def
      Object_keys_def Object_values_def add_account_def)

text \<open>
  C3, amended: the protocols are visited in the order MAKERDAO_DSR, AAVE, COMPOUND,
  YEARN_VAULTS, YEARN_VAULTS_V2; the protocol list of every returned account is the
  subsequence of that order made of the selected protocols referencing the address, and the
  accounts are returned in the order in which the addresses are first met by that iteration.
\<close>

theorem defiAccounts_iteration_order:
  "map fst (addresses_of st w) = [MAKERDAO_DSR, AAVE, COMPOUND, YEARN_VAULTS, YEARN_VAULTS_V2] \<and>
   map address (defiAccounts st w) = uniqueStrings (concat (map snd (addresses_of st w))) \<and>
   (\<forall>account \<in> set (defiAccounts st w).
      protocols account =
        filter (\<lambda>p. selected w p \<and> address account \<in> referenced st p)
          [MAKERDAO_DSR, AAVE, COMPOUND, YEARN_VAULTS, YEARN_VAULTS_V2])"
proof (intro conjI ballI)
  show "map fst (addresses_of st w) = [MAKERDAO_DSR, AAVE, COMPOUND, YEARN_VAULTS, YEARN_VAULTS_V2]"
    by (simp add: addresses_of_eq)
  show "map address (defiAccounts st w) = uniqueStrings (concat (map snd (addresses_of st w)))"
    by (simp add: defiAccounts_eq accounts_of_def account_of_def comp_def)
next
  fix account assume "account \<in> set (defiAccounts st w)"
  then obtain a where "account = account_of (addresses_of st w) a"
    by (auto simp: defiAccounts_eq accounts_of_def)
  then show "protocols account =
        filter (\<lambda>p. selected w p \<and> address account \<in> referenced st p)
          [MAKERDAO_DSR, AAVE, COMPOUND, YEARN_VAULTS, YEARN_VAULTS_V2]"
    using protos_addresses_of[of st w a] by (simp add: account_of_def iteration_order_def)
qed

text \<open>
  C3, amended, on the adapter state above: the account of \<open>0xabc\<close> is returned with the
  protocols \<open>MAKERDAO_DSR\<close>, \<open>AAVE\<close>, in the order of the iteration.
\<close>

theorem defiAccounts_iteration_order_witness:
  "\<lparr>address = ''0xabc'', chain = ETH, protocols = [MAKERDAO_DSR, AAVE]\<rparr>
     \<in> set (defiAccounts example_adapters []) \<and>
   [MAKERDAO_DSR, AAVE] =
     filter (\<lambda>p. selected [] p \<and> ''0xabc'' \<in> referenced example_adapters p)
       [MAKERDAO_DSR, AAVE, COMPOUND, YEARN_VAULTS, YEARN_VAULTS_V2]"
proof -
  have mem: "\<lparr>address = ''0xabc'', chain = ETH, protocols = [MAKERDAO_DSR, AAVE]\<rparr>
     \<in> set (defiAccounts example_adapters [])"
    by (simp add: example_defiAccounts)
  have "protocols \<lparr>address = ''0xabc'', chain = ETH, protocols = [MAKERDAO_DSR, AAVE]\<rparr> =
     filter (\<lambda>p. selected [] p \<and>
         address \<lparr>address = ''0xabc'', chain = ETH, protocols = [MAKERDAO_DSR, AAVE]\<rparr>
           \<in> referenced example_adapters p)
       [MAKERDAO_DSR, AAVE, COMPOUND, YEARN_VAULTS, YEARN_VAULTS_V2]"
    using defiAccounts_iteration_order[of example_adapters "[]"] mem by blast
  then show ?thesis using mem by (simp only: DefiAccount.select_convs simp_thms)
qed

text \<open>
  C6: \<open>defiAccounts\<close> returns every address at most once; the protocol list of a returned
  account has no duplicates and holds exactly the eligible protocols, restricted to the
  filter when it is not empty, whose balance keys or history addresses include the address.
  The returned addresses are exactly those referenced by such a protocol.
\<close>

theorem defiAccounts_exact:
  "distinct (map address (defiAccounts st w)) \<and>
   (\<forall>account \<in> set (defiAccounts st w).
      distinct (protocols account) \<and>
      set (protocols account) =
        {p \<in> eligible. selected w p \<and> address account \<in> referenced st p}) \<and>
   set (map address (defiAccounts st w)) =
     {a. \<exists>p \<in> eligible. selected w p \<and> a \<in> referenced st p}"
proof (intro conjI ballI)
  have keys: "map address (defiAccounts st w) = uniqueStrings (concat (map snd (addresses_of st w)))"
    by (simp add: defiAccounts_eq accounts_of_def account_of_def comp_def)
  show "distinct (map address (defiAccounts st w))"
    by (simp only: keys distinct_uniqueStrings)
  show "set (map address (defiAccounts st w)) =
     {a. \<exists>p \<in> eligible. selected w p \<and> a \<in> referenced st p}"
  proof -
    have "a \<in> set (map address (defiAccounts st w)) \<longleftrightarrow>
        (\<exists>p \<in> eligible. selected w p \<and> a \<in> referenced st p)" for a
      unfolding keys set_uniqueStrings mem_concat_protos protos_addresses_of
      by (simp add: filter_empty_conv set_iteration_order)
    then show ?thesis by blast
  qed
next
  fix account assume "account \<in> set (defiAccounts st w)"
  then obtain a where "account = account_of (addresses_of st w) a"
    by (auto simp: defiAccounts_eq accounts_of_def)
  then have p: "protocols account =
      filter (\<lambda>p. selected w p \<and> address account \<in> referenced st p) iteration_order"
    using protos_addresses_of[of st w a] by (simp add: account_of_def)
  show "distinct (protocols account)"
    unfolding p by (rule distinct_filter) (simp add: iteration_order_def)
  show "set (protocols account) =
        {p \<in> eligible. selected w p \<and> address account \<in> referenced st p}"
    unfolding p by (auto simp: set_iteration_order)
qed

text \<open>
  C6 on the adapter state above with the filter \<open>[MAKERDAO_DSR, AAVE]\<close>: one account, for
  \<open>0xabc\<close>; the Compound address \<open>0xdef\<close> is filtered out.
\<close>

theorem defiAccounts_exact_witness:
  "\<lparr>address = ''0xabc'', chain = ETH, protocols = [MAKERDAO_DSR, AAVE]\<rparr>
     \<in> set (defiAccounts example_adapters [MAKERDAO_DSR, AAVE]) \<and>
   distinct [MAKERDAO_DSR, AAVE] \<and>
   set [MAKERDAO_DSR, AAVE] =
     {p \<in> eligible. selected [MAKERDAO_DSR, AAVE] p \<and> ''0xabc'' \<in> referenced example_adapters p} \<and>
   map address (defiAccounts example_adapters [MAKERDAO_DSR, AAVE]) = [''0xabc'']"
proof -
  have eq: "defiAccounts example_adapters [MAKERDAO_DSR, AAVE] =
     [\<lparr>address = ''0xabc'', chain = ETH, protocols = [MAKERDAO_DSR, AAVE]\<rparr>]"
    by (simp add: defiAccounts_def addresses_of_def getProtocolAddresses_def example_adapters_def
      Object_keys_def Object_values_def add_account_def)
  have mem: "\<lparr>address = ''0xabc'', chain = ETH, protocols = [MAKERDAO_DSR, AAVE]\<rparr>
     \<in> set (defiAccounts example_adapters [MAKERDAO_DSR, AAVE])"
    by (simp add: eq)
  have "distinct (protocols \<lparr>address = ''0xabc'', chain = ETH, protocols = [MAKERDAO_DSR, AAVE]\<rparr>) \<and>
    set (protocols \<lparr>address = ''0xabc'', chain = ETH, protocols = [MAKERDAO_DSR, AAVE]\<rparr>) =
     {p \<in> eligible. selected [MAKERDAO_DSR, AAVE] p \<and>
        address \<lparr>address = ''0xabc'', chain = ETH, protocols = [MAKERDAO_DSR, AAVE]\<rparr>
          \<in> referenced example_adapters p}"
    using defiAccounts_exact[of example_adapters "[MAKERDAO_DSR, AAVE]"] mem by blast
  moreover have "map address (defiAccounts example_adapters [MAKERDAO_DSR, AAVE]) = [''0xabc'']"
    by (simp add: eq)
  ultimately show ?thesis using mem by (simp only: DefiAccount.select_convs simp_thms)
qed

section \<open>Properties of \<open>overview\<close>\<close>

subsection \<open>When the loop returns\<close>

text \<open>
  The loop throws on an entry of the generic path whose protocol name is inherited from
  \<open>Object.prototype\<close> and not yet a key of the map; on every other payload it returns, and it
  keeps the summaries of the generic path with a token.
\<close>

lemma map_of_store_special_other:
  "k \<noteq> key \<Longrightarrow> map_of (store_special key sp m) k = map_of m k"
  by (simp add: store_special_def update_conv' split: option.splits)

lemma add_entry_special:
  "name (protocol x) \<in> specials e \<Longrightarrow>
   \<exists>sp. add_entry e m x = Inr (store_special (name (protocol x)) sp m)"
  by (auto simp: add_entry_def specials_def Let_def)

lemma tokenInfo_add_asset: "tokenInfo (add_asset x s) = tokenInfo s"
  by (simp add: add_asset_def Let_def)

lemma get_property_Own: "get_property m k = Own s \<longleftrightarrow> map_of m k = Some s"
  by (simp add: get_property_def split: option.splits)

lemma get_property_update_same: "get_property (AList.update k v m) k = Own v"
  by (simp add: get_property_def update_conv')

lemma add_entry_generic_cases:
  assumes "name (protocol x) \<notin> specials e"
    and "\<And>s. map_of m (name (protocol x)) = Some s \<Longrightarrow> tokenInfo s \<noteq> None"
  shows "add_entry e m x =
     (if map_of m (name (protocol x)) = None \<and> name (protocol x) \<in> set Object_prototype
      then Inl TypeError
      else Inr (AList.update (name (protocol x))
                 (next_summary e (map_of m (name (protocol x))) x) m))"
proof -
  let ?n = "name (protocol x)"
  have branch: "add_entry e m x =
      (case seed_or_collapse e ?n x m of Inl err \<Rightarrow> Inl err | Inr m' \<Rightarrow> add_balance ?n x m')"
    using assms(1) by (simp add: add_entry_def specials_def Let_def)
  show ?thesis
  proof (cases "map_of m ?n")
    case None
    show ?thesis
    proof (cases "?n \<in> set Object_prototype")
      case True
      with None show ?thesis
        by (simp add: branch seed_or_collapse_def get_property_def)
    next
      case False
      with None have "get_property m ?n = Undefined" by (simp add: get_property_def)
      with None False show ?thesis
        by (simp add: branch seed_or_collapse_def add_balance_def next_summary_def
            get_property_update_same)
    qed
  next
    case (Some s)
    then have own: "get_property m ?n = Own s" by (simp add: get_property_Own)
    from Some assms(2) obtain info where info: "tokenInfo s = Some info" by auto
    show ?thesis
    proof (cases "tokenName info = tokenName (baseBalance x)")
      case True
      with Some own info show ?thesis
        by (simp add: branch seed_or_collapse_def add_balance_def next_summary_def update_triv)
    next
      case False
      with Some own info show ?thesis
        by (simp add: branch seed_or_collapse_def add_balance_def next_summary_def
            get_property_update_same)
    qed
  qed
qed

lemma add_entry_generic:
  assumes "name (protocol x) \<notin> specials e"
    and "\<And>s. map_of m (name (protocol x)) = Some s \<Longrightarrow> tokenInfo s \<noteq> None"
    and "name (protocol x) \<notin> set Object_prototype \<or> (\<exists>m'. add_entry e m x = Inr m')"
  shows "add_entry e m x =
     Inr (AList.update (name (protocol x)) (next_summary e (map_of m (name (protocol x))) x) m)"
  using add_entry_generic_cases[OF assms(1,2)] assms(3) by (auto split: if_splits)

lemma tokenInfo_next_summary:
  "(\<And>s. previous = Some s \<Longrightarrow> tokenInfo s \<noteq> None) \<Longrightarrow> tokenInfo (next_summary e previous x) \<noteq> None"
  by (auto simp: next_summary_def Let_def tokenInfo_add_asset new_summary_def split: option.splits)

lemma generic_ok_preserved:
  assumes "generic_ok e m" "add_entry e m x = Inr m'"
  shows "generic_ok e m'"
proof (cases "name (protocol x) \<in> specials e")
  case True
  from add_entry_special[OF True, of m] assms(2) obtain sp where
    eq: "m' = store_special (name (protocol x)) sp m" by auto
  show ?thesis
    unfolding generic_ok_def eq
  proof (intro allI impI)
    fix k s assume a: "map_of (store_special (name (protocol x)) sp m) k = Some s" "k \<notin> specials e"
    with True have "k \<noteq> name (protocol x)" by auto
    with a assms(1) show "tokenInfo s \<noteq> None"
      by (auto simp: map_of_store_special_other generic_ok_def)
  qed
next
  case False
  let ?n = "name (protocol x)"
  have pre: "\<And>s. map_of m ?n = Some s \<Longrightarrow> tokenInfo s \<noteq> None"
    using assms(1) False by (auto simp: generic_ok_def)
  have "add_entry e m x = Inr (AList.update ?n (next_summary e (map_of m ?n) x) m)"
  proof (rule add_entry_generic[OF False pre])
    show "?n \<notin> set Object_prototype \<or> (\<exists>m'. add_entry e m x = Inr m')"
      by (rule disjI2) (rule exI, rule assms(2))
  qed
  with assms(2) have eq: "m' = AList.update ?n (next_summary e (map_of m ?n) x) m" by simp
  show ?thesis
    unfolding generic_ok_def eq
  proof (intro allI impI)
    fix k s
    assume a: "map_of (AList.update ?n (next_summary e (map_of m ?n) x) m) k = Some s"
      "k \<notin> specials e"
    show "tokenInfo s \<noteq> None"
    proof (cases "k = ?n")
      case True
      with a have "s = next_summary e (map_of m ?n) x" by (simp add: update_conv')
      then show ?thesis using tokenInfo_next_summary[of "map_of m ?n" e x] pre by blast
    next
      case False
      with a assms(1) show ?thesis by (auto simp: update_conv' generic_ok_def)
    qed
  qed
qed

lemma add_entry_total:
  assumes "generic_ok e m" "name (protocol x) \<notin> set Object_prototype"
  shows "\<exists>m'. add_entry e m x = Inr m'"
proof (cases "name (protocol x) \<in> specials e")
  case True
  from add_entry_special[OF True, of m] show ?thesis by blast
next
  case False
  have pre: "\<And>s. map_of m (name (protocol x)) = Some s \<Longrightarrow> tokenInfo s \<noteq> None"
    using assms(1) False by (auto simp: generic_ok_def)
  have "add_entry e m x =
     Inr (AList.update (name (protocol x)) (next_summary e (map_of m (name (protocol x))) x) m)"
  proof (rule add_entry_generic[OF False pre])
    show "name (protocol x) \<notin> set Object_prototype \<or> (\<exists>m'. add_entry e m x = Inr m')"
      by (rule disjI1) (rule assms(2))
  qed
  then show ?thesis by (rule exI)
qed

lemma add_entries_Cons_Inr:
  assumes "add_entries e m (x # es) = Inr m'"
  obtains m1 where "add_entry e m x = Inr m1" "add_entries e m1 es = Inr m'"
  using assms by (cases "add_entry e m x") auto

lemma add_entries_total:
  "generic_ok e m \<Longrightarrow> \<forall>x \<in> set es. name (protocol x) \<notin> set Object_prototype \<Longrightarrow>
   \<exists>m'. add_entries e m es = Inr m' \<and> generic_ok e m'"
proof (induction es arbitrary: m)
  case Nil
  then show ?case by simp
next
  case (Cons x es)
  from Cons.prems(2) have "name (protocol x) \<notin> set Object_prototype" by simp
  from add_entry_total[OF Cons.prems(1) this] obtain m1 where m1: "add_entry e m x = Inr m1"
    by blast
  have ok: "generic_ok e m1" by (rule generic_ok_preserved[OF Cons.prems(1) m1])
  from Cons.prems(2) have "\<forall>x \<in> set es. name (protocol x) \<notin> set Object_prototype" by simp
  from Cons.IH[OF ok this] m1 show ?case by simp
qed

lemma add_addresses_concat:
  "add_addresses e m ap = add_entries e m (concat (map snd ap))"
proof -
  have app: "add_entries e m (xs @ ys) =
      (case add_entries e m xs of Inl err \<Rightarrow> Inl err | Inr m' \<Rightarrow> add_entries e m' ys)" for m xs ys
    by (induction xs arbitrary: m) (auto split: sum.splits)
  show ?thesis
    by (induction ap arbitrary: m) (auto simp: app split: sum.splits)
qed

lemma generic_ok_empty: "generic_ok e []"
  by (simp add: generic_ok_def)

lemma add_addresses_total:
  "\<forall>x \<in> set (concat (map snd ap)). name (protocol x) \<notin> set Object_prototype \<Longrightarrow>
   \<exists>m. add_addresses e [] ap = Inr m \<and> generic_ok e m"
  unfolding add_addresses_concat by (rule add_entries_total[OF generic_ok_empty])


lemma overview_inherited_name_throws:
  "overview example_env
     [(''0xabc'', [example_entry ''constructor'' Asset ''0xT'' ''Dai'' ''DAI'' 1 1])] =
   Inl TypeError"
  by (simp add: overview_def add_entry_def example_env_def example_entry_def seed_or_collapse_def
      get_property_def Object_prototype_def)

subsection \<open>One protocol at a time\<close>

lemma add_entry_other:
  assumes "generic_ok e m" "add_entry e m x = Inr m'" "name (protocol x) \<noteq> p"
  shows "map_of m' p = map_of m p"
proof (cases "name (protocol x) \<in> specials e")
  case True
  from add_entry_special[OF True, of m] assms show ?thesis
    by (auto simp: map_of_store_special_other)
next
  case False
  have "add_entry e m x =
     Inr (AList.update (name (protocol x)) (next_summary e (map_of m (name (protocol x))) x) m)"
  proof (rule add_entry_generic[OF False])
    show "\<And>s. map_of m (name (protocol x)) = Some s \<Longrightarrow> tokenInfo s \<noteq> None"
      using assms(1) False by (auto simp: generic_ok_def)
    show "name (protocol x) \<notin> set Object_prototype \<or> (\<exists>m'. add_entry e m x = Inr m')"
      by (rule disjI2) (rule exI, rule assms(2))
  qed
  with assms show ?thesis by (auto simp: update_conv')
qed

lemma add_entry_same:
  assumes "generic_ok e m" "add_entry e m x = Inr m'" "name (protocol x) = p" "p \<notin> specials e"
  shows "map_of m' p = Some (next_summary e (map_of m p) x)"
proof -
  have "add_entry e m x =
     Inr (AList.update (name (protocol x)) (next_summary e (map_of m (name (protocol x))) x) m)"
  proof (rule add_entry_generic)
    show "name (protocol x) \<notin> specials e" using assms(3,4) by simp
    show "\<And>s. map_of m (name (protocol x)) = Some s \<Longrightarrow> tokenInfo s \<noteq> None"
      using assms(1,3,4) by (auto simp: generic_ok_def)
    show "name (protocol x) \<notin> set Object_prototype \<or> (\<exists>m'. add_entry e m x = Inr m')"
      by (rule disjI2) (rule exI, rule assms(2))
  qed
  with assms show ?thesis by (auto simp: update_conv')
qed

lemma add_entries_generic:
  assumes "generic_ok e m" "add_entries e m es = Inr m'" "p \<notin> specials e"
  shows "map_of m' p =
     foldl (\<lambda>previous entry. Some (next_summary e previous entry)) (map_of m p)
       (filter (\<lambda>entry. name (protocol entry) = p) es)"
  using assms(1,2)
proof (induction es arbitrary: m)
  case Nil
  then show ?case by simp
next
  case (Cons x es)
  from Cons.prems(2) obtain m1 where
    step: "add_entry e m x = Inr m1" and rest: "add_entries e m1 es = Inr m'"
    by (rule add_entries_Cons_Inr)
  have m1: "add_entry e m x = Inr m1" "generic_ok e m1"
    using step generic_ok_preserved[OF Cons.prems(1) step] by simp_all
  note IH = Cons.IH[OF m1(2) rest]
  show ?case
  proof (cases "name (protocol x) = p")
    case True
    from add_entry_same[OF Cons.prems(1) m1(1) True assms(3)] IH True show ?thesis by simp
  next
    case False
    from add_entry_other[OF Cons.prems(1) m1(1) False] IH False show ?thesis by simp
  qed
qed

lemma add_addresses_generic:
  assumes "add_addresses e [] ap = Inr m" "p \<notin> specials e"
  shows "map_of m p = generic_summary e p (concat (map snd ap))"
  using add_entries_generic[OF generic_ok_empty, of e "concat (map snd ap)" m p] assms
  by (simp add: add_addresses_concat generic_summary_def summarize_def entries_of_def)

subsection \<open>Merging assets\<close>

lemma add_asset_assets: "assets (add_asset x s) = merge_asset (baseBalance x) (assets s)"
proof -
  let ?a = "tokenAddress (baseBalance x)"
  let ?P = "\<lambda>asset. tokenAddress asset = ?a"
  let ?f = "\<lambda>asset. asset\<lparr>balance := \<lparr>amount = amount (balance (baseBalance x)) + amount (balance asset),
                           usdValue = usdValue (balance (baseBalance x)) + usdValue (balance asset)\<rparr>\<rparr>"
  have "(if findIndex ?P ts \<ge> 0 then ts[nat (findIndex ?P ts) := ?f (ts ! nat (findIndex ?P ts))]
         else ts @ [baseBalance x]) = merge_asset (baseBalance x) ts" for ts
  proof (induction ts)
    case Nil
    then show ?case by simp
  next
    case (Cons t ts)
    show ?case
    proof (cases "?P t")
      case True
      then show ?thesis by simp
    next
      case False
      show ?thesis
      proof (cases "findIndex ?P ts \<ge> 0")
        case True
        then have "nat (findIndex ?P ts + 1) = Suc (nat (findIndex ?P ts))" by simp
        with True False Cons show ?thesis by (simp add: Let_def)
      next
        case negative: False
        with False Cons show ?thesis by (simp add: Let_def)
      qed
    qed
  qed
  from this[of "assets s"] show ?thesis
    by (auto simp: add_asset_def Let_def split: if_splits)
qed

lemma merge_asset_keys:
  "map tokenAddress (merge_asset b ts) =
     (if tokenAddress b \<in> set (map tokenAddress ts) then map tokenAddress ts
      else map tokenAddress ts @ [tokenAddress b])"
  by (induction ts) auto

lemma merge_asset_amount:
  "sum_list (map (\<lambda>t. amount (balance t)) (filter (\<lambda>t. tokenAddress t = a) (merge_asset b ts))) =
   sum_list (map (\<lambda>t. amount (balance t)) (filter (\<lambda>t. tokenAddress t = a) ts)) +
     (if tokenAddress b = a then amount (balance b) else 0)"
  by (induction ts) auto

lemma merge_asset_usdValue:
  "sum_list (map (\<lambda>t. usdValue (balance t)) (filter (\<lambda>t. tokenAddress t = a) (merge_asset b ts))) =
   sum_list (map (\<lambda>t. usdValue (balance t)) (filter (\<lambda>t. tokenAddress t = a) ts)) +
     (if tokenAddress b = a then usdValue (balance b) else 0)"
  by (induction ts) auto

lemma uniqueStrings_snoc:
  "uniqueStrings (ks @ [a]) = (if a \<in> set ks then uniqueStrings ks else uniqueStrings ks @ [a])"
  by (simp add: uniqueStrings_append)

lemma foldl_merge_keys:
  "map tokenAddress (foldl (\<lambda>ts b. merge_asset b ts) [] bs) = uniqueStrings (map tokenAddress bs)"
proof (induction bs rule: rev_induct)
  case Nil
  then show ?case by simp
next
  case (snoc b bs)
  have "set (map tokenAddress (foldl (\<lambda>ts b. merge_asset b ts) [] bs)) = set (map tokenAddress bs)"
    by (simp only: snoc set_uniqueStrings)
  then show ?case
    using snoc by (simp add: merge_asset_keys uniqueStrings_snoc del: set_map)
qed

lemma foldl_merge_amount:
  "sum_list (map (\<lambda>t. amount (balance t))
       (filter (\<lambda>t. tokenAddress t = a) (foldl (\<lambda>ts b. merge_asset b ts) [] bs))) =
   sum_list (map (\<lambda>t. amount (balance t)) (filter (\<lambda>t. tokenAddress t = a) bs))"
  by (induction bs rule: rev_induct) (simp_all add: merge_asset_amount)

lemma foldl_merge_usdValue:
  "sum_list (map (\<lambda>t. usdValue (balance t))
       (filter (\<lambda>t. tokenAddress t = a) (foldl (\<lambda>ts b. merge_asset b ts) [] bs))) =
   sum_list (map (\<lambda>t. usdValue (balance t)) (filter (\<lambda>t. tokenAddress t = a) bs))"
  by (induction bs rule: rev_induct) (simp_all add: merge_asset_usdValue)

lemma single_slot:
  assumes "distinct (map tokenAddress ts)" "a \<in> set (map tokenAddress ts)"
  shows "\<exists>slot. filter (\<lambda>t. tokenAddress t = a) ts = [slot]"
  using assms
proof (induction ts)
  case Nil
  then show ?case by simp
next
  case (Cons t ts)
  show ?case
  proof (cases "tokenAddress t = a")
    case True
    with Cons.prems have "tokenAddress u \<noteq> a" if "u \<in> set ts" for u
      using that by (metis distinct.simps(2) image_eqI list.simps(9) set_map)
    then have "filter (\<lambda>t. tokenAddress t = a) ts = []"
      by (simp add: filter_empty_conv)
    with True show ?thesis by simp
  next
    case False
    with Cons show ?thesis by simp
  qed
qed

subsection \<open>The summary of one generic protocol\<close>

lemma generic_summary_summarize: "generic_summary e p es = summarize e (entries_of p es)"
  by (simp add: generic_summary_def)

lemma summarize_Nil: "summarize e [] = None"
  by (simp add: summarize_def)

lemma summarize_snoc: "summarize e (es @ [x]) = Some (next_summary e (summarize e es) x)"
  by (simp add: summarize_def)

lemma summarize_None: "summarize e es = None \<longleftrightarrow> es = []"
  by (cases es rule: rev_cases) (simp_all add: summarize_Nil summarize_snoc)

lemma assets_next_summary:
  "assets (next_summary e previous x) =
     (if balanceType x = Asset
      then merge_asset (baseBalance x) (case previous of None \<Rightarrow> [] | Some s \<Rightarrow> assets s)
      else (case previous of None \<Rightarrow> [] | Some s \<Rightarrow> assets s))"
  by (simp add: next_summary_def Let_def add_asset_assets new_summary_def split: option.splits)

lemma balanceUsd_add_asset:
  "balanceUsd (add_asset x s) =
     Some ((case balanceUsd s of None \<Rightarrow> 0 | Some b \<Rightarrow> b) + usdValue (balance (baseBalance x)))"
  by (simp add: add_asset_def Let_def)

lemma balanceUsd_next_summary:
  "balanceUsd (next_summary e previous x) =
     (if balanceType x = Asset
      then Some ((case Option.bind previous balanceUsd of None \<Rightarrow> 0 | Some b \<Rightarrow> b)
                 + usdValue (balance (baseBalance x)))
      else Option.bind previous balanceUsd)"
  by (simp add: next_summary_def Let_def balanceUsd_add_asset new_summary_def split: option.splits)

lemma flags_add_asset:
  "deposits (add_asset x s) = deposits s" "liabilities (add_asset x s) = liabilities s"
  "protocol (add_asset x s) = protocol s"
  by (simp_all add: add_asset_def Let_def)

lemma flags_next_summary:
  "deposits (next_summary e previous x) = (case previous of None \<Rightarrow> False | Some s \<Rightarrow> deposits s)"
  "liabilities (next_summary e previous x) = (case previous of None \<Rightarrow> False | Some s \<Rightarrow> liabilities s)"
  by (simp_all add: next_summary_def Let_def flags_add_asset new_summary_def split: option.splits)

lemma collapsed_eq: "collapsed e info = \<lparr>tokenName = multiple_assets e, tokenSymbol = ''''\<rparr>"
  by (cases info) (simp add: collapsed_def)

lemma tokenInfo_next_summary_eq:
  "tokenInfo (next_summary e previous x) =
     (case previous of
        None \<Rightarrow> Some \<lparr>tokenName = tokenName (baseBalance x), tokenSymbol = tokenSymbol (baseBalance x)\<rparr>
      | Some s \<Rightarrow>
          (case tokenInfo s of
             None \<Rightarrow> None
           | Some info \<Rightarrow>
               if tokenName info \<noteq> tokenName (baseBalance x)
               then Some \<lparr>tokenName = multiple_assets e, tokenSymbol = ''''\<rparr>
               else Some info))"
  by (simp add: next_summary_def Let_def tokenInfo_add_asset new_summary_def collapsed_eq
      split: option.splits)

lemma summarize_assets:
  "(case summarize e es of None \<Rightarrow> [] | Some s \<Rightarrow> assets s) =
     foldl (\<lambda>ts b. merge_asset b ts) []
       (map baseBalance (filter (\<lambda>x. balanceType x = Asset) es))"
  by (induction es rule: rev_induct)
     (simp_all add: summarize_Nil summarize_snoc assets_next_summary)

lemma summarize_balanceUsd:
  "Option.bind (summarize e es) balanceUsd =
     (if filter (\<lambda>x. balanceType x = Asset) es = [] then None
      else Some (sum_list (map (\<lambda>x. usdValue (balance (baseBalance x)))
                   (filter (\<lambda>x. balanceType x = Asset) es))))"
  by (induction es rule: rev_induct)
     (simp_all add: summarize_Nil summarize_snoc balanceUsd_next_summary)

lemma summarize_flags:
  "summarize e es = Some s \<Longrightarrow> \<not> deposits s \<and> \<not> liabilities s"
proof (induction es arbitrary: s rule: rev_induct)
  case Nil
  then show ?case by (simp add: summarize_Nil)
next
  case (snoc x es)
  then show ?case
    by (cases "summarize e es") (auto simp: summarize_snoc flags_next_summary)
qed

lemma summarize_tokenInfo:
  "Option.bind (summarize e es) tokenInfo = token_display e es"
proof (cases es)
  case Nil
  then show ?thesis by (simp add: summarize_Nil)
next
  case (Cons x0 rest)
  have "Option.bind (summarize e (x0 # rest)) tokenInfo = token_display e (x0 # rest)"
  proof (induction rest rule: rev_induct)
    case Nil
    have "summarize e [x0] = Some (next_summary e None x0)"
      using summarize_snoc[of e "[]" x0] by (simp add: summarize_Nil)
    then show ?case by (simp add: tokenInfo_next_summary_eq)
  next
    case (snoc x rest)
    obtain s where s: "summarize e (x0 # rest) = Some s"
      using summarize_None[of e "x0 # rest"] by (cases "summarize e (x0 # rest)") auto
    have step: "summarize e (x0 # rest @ [x]) = Some (next_summary e (Some s) x)"
      using summarize_snoc[of e "x0 # rest" x] s by simp
    from snoc s have ti: "tokenInfo s = token_display e (x0 # rest)" by simp
    show ?case
      unfolding step using ti
      by (auto simp: tokenInfo_next_summary_eq)
  qed
  with Cons show ?thesis by simp
qed

lemma asset_entries_entries_of:
  "filter (\<lambda>x. balanceType x = Asset) (entries_of p es) = asset_entries p es"
  by (simp add: entries_of_def asset_entries_def conj_commute)

lemma generic_summarize:
  assumes "add_addresses e [] ap = Inr m" "p \<notin> specials e" "map_of m p = Some s"
  shows "summarize e (entries_of p (concat (map snd ap))) = Some s"
  using add_addresses_generic[OF assms(1,2)] assms(3)
  by (simp add: generic_summary_summarize)

lemma generic_assets:
  assumes "add_addresses e [] ap = Inr m" "p \<notin> specials e" "map_of m p = Some s"
  shows "assets s = foldl (\<lambda>ts b. merge_asset b ts) []
                      (map baseBalance (asset_entries p (concat (map snd ap))))"
  using summarize_assets[of e "entries_of p (concat (map snd ap))"]
  by (simp add: generic_summarize[OF assms] asset_entries_entries_of)

lemma generic_balanceUsd:
  assumes "add_addresses e [] ap = Inr m" "p \<notin> specials e" "map_of m p = Some s"
  shows "balanceUsd s =
     (if asset_entries p (concat (map snd ap)) = [] then None
      else Some (sum_list (map (\<lambda>x. usdValue (balance (baseBalance x)))
                   (asset_entries p (concat (map snd ap))))))"
  using summarize_balanceUsd[of e "entries_of p (concat (map snd ap))"]
  by (simp add: generic_summarize[OF assms] asset_entries_entries_of)

lemma generic_tokenInfo:
  assumes "add_addresses e [] ap = Inr m" "p \<notin> specials e" "map_of m p = Some s"
  shows "tokenInfo s = token_display e (entries_of p (concat (map snd ap)))"
  using summarize_tokenInfo[of e "entries_of p (concat (map snd ap))"]
  by (simp add: generic_summarize[OF assms])

lemma generic_flags:
  assumes "add_addresses e [] ap = Inr m" "p \<notin> specials e" "map_of m p = Some s"
  shows "\<not> deposits s \<and> \<not> liabilities s"
  by (rule summarize_flags[OF generic_summarize[OF assms]])

lemma generic_present:
  assumes "add_addresses e [] ap = Inr m" "p \<notin> specials e"
  shows "map_of m p = None \<longleftrightarrow> entries_of p (concat (map snd ap)) = []"
  using summarize_None[of e "entries_of p (concat (map snd ap))"]
    add_addresses_generic[OF assms(1,2)]
  by (simp add: generic_summary_summarize)

lemma example_specials:
  "specials example_env = {''Aave'', ''Compound'', ''yearn.finance Vaults'', ''Liquity''}"
  by (simp add: specials_def example_env_def)

subsection \<open>The final filter\<close>

lemma set_sortBy: "set (sortBy f xs) = set xs"
  by (simp add: sortBy_def)

lemma overview_eq:
  "add_addresses e [] ap = Inr m \<Longrightarrow>
   overview e ap = Inr (filter listed (sortBy (\<lambda>v. name (protocol v)) (Object_values (add_lending e m))))"
  by (simp add: overview_def)

text \<open>
  C1, as stated, fails: the final filter tests whether \<open>balanceUsd\<close> is there, not whether it
  is positive. A generic protocol whose only \<open>Asset\<close> entry is worth 0 USD is listed with a
  \<open>balanceUsd\<close> of exactly zero and with both flags false.
\<close>

theorem overview_zero_balance_counterexample:
  "overview example_env [(''0xabc'', [example_entry ''Curve'' Asset ''0xT'' ''Dai'' ''DAI'' 0 0])] =
     Inr [\<lparr>protocol = \<lparr>name = ''Curve'', icon = ''Curve.svg''\<rparr>,
           tokenInfo = Some \<lparr>tokenName = ''Dai'', tokenSymbol = ''DAI''\<rparr>,
           assets = [\<lparr>tokenName = ''Dai'', tokenSymbol = ''DAI'', tokenAddress = ''0xT'',
                      balance = \<lparr>amount = 0, usdValue = 0\<rparr>\<rparr>],
           liabilitiesUrl = None, depositsUrl = None,
           deposits = False, liabilities = False,
           totalCollateralUsd = 0, totalDebtUsd = 0, totalLendingDepositUsd = 0,
           balanceUsd = Some 0\<rparr>]"
  by (simp add: overview_def add_entry_def example_env_def example_entry_def seed_or_collapse_def
      new_summary_def add_balance_def add_asset_def add_lending_def shouldDisplay_def
      makerDAODSRSummary_def makerDAOVaultSummary_def
      protocolSummary_def store_special_def sortBy_def listed_def Object_values_def Let_def
      get_property_def Object_prototype_def)

text \<open>
  C1, amended: for every state whose payload has no protocol name inherited from
  \<open>Object.prototype\<close>, \<open>overview\<close> returns a list, and the list excludes every
  protocol summary whose \<open>balanceUsd\<close> is unset and whose \<open>deposits\<close> and \<open>liabilities\<close> flags
  are false; equivalently, every returned summary has \<open>balanceUsd\<close> set (to any value, zero
  included), or \<open>deposits\<close> true, or \<open>liabilities\<close> true. The returned summaries are exactly
  the summaries of the assembled map that pass this test.
\<close>

theorem overview_listed:
  assumes "\<forall>x \<in> set (concat (map snd ap)). name (protocol x) \<notin> set Object_prototype"
  shows "\<exists>m out. add_addresses e [] ap = Inr m \<and> overview e ap = Inr out \<and>
     (\<forall>v \<in> set out. balanceUsd v \<noteq> None \<or> deposits v \<or> liabilities v) \<and>
     set out = {v \<in> set (Object_values (add_lending e m)).
                  balanceUsd v \<noteq> None \<or> deposits v \<or> liabilities v}"
proof -
  from add_addresses_total[OF assms, of e] obtain m where m: "add_addresses e [] ap = Inr m" by blast
  show ?thesis
    using m by (auto simp: overview_eq[OF m] set_sortBy listed_def)
qed

text \<open>
  C1 on the payload with one \<open>Asset\<close> entry worth 0 USD: the summary is in the assembled map
  and in the output.
\<close>

theorem overview_listed_witness:
  "overview example_env [(''0xabc'', [example_entry ''Curve'' Asset ''0xT'' ''Dai'' ''DAI'' 0 0])] =
     Inr [\<lparr>protocol = \<lparr>name = ''Curve'', icon = ''Curve.svg''\<rparr>,
           tokenInfo = Some \<lparr>tokenName = ''Dai'', tokenSymbol = ''DAI''\<rparr>,
           assets = [\<lparr>tokenName = ''Dai'', tokenSymbol = ''DAI'', tokenAddress = ''0xT'',
                      balance = \<lparr>amount = 0, usdValue = 0\<rparr>\<rparr>],
           liabilitiesUrl = None, depositsUrl = None,
           deposits = False, liabilities = False,
           totalCollateralUsd = 0, totalDebtUsd = 0, totalLendingDepositUsd = 0,
           balanceUsd = Some 0\<rparr>] \<and>
   (\<exists>m. add_addresses example_env []
          [(''0xabc'', [example_entry ''Curve'' Asset ''0xT'' ''Dai'' ''DAI'' 0 0])] = Inr m \<and>
        (\<exists>v \<in> set (Object_values (add_lending example_env m)).
            balanceUsd v = Some 0 \<and> \<not> deposits v \<and> \<not> liabilities v))"
proof -
  let ?ap = "[(''0xabc'', [example_entry ''Curve'' Asset ''0xT'' ''Dai'' ''DAI'' 0 0])]"
  let ?z = "\<lparr>protocol = \<lparr>name = ''Curve'', icon = ''Curve.svg''\<rparr>,
           tokenInfo = Some \<lparr>tokenName = ''Dai'', tokenSymbol = ''DAI''\<rparr>,
           assets = [\<lparr>tokenName = ''Dai'', tokenSymbol = ''DAI'', tokenAddress = ''0xT'',
                      balance = \<lparr>amount = 0, usdValue = 0\<rparr>\<rparr>],
           liabilitiesUrl = None, depositsUrl = None,
           deposits = False, liabilities = False,
           totalCollateralUsd = 0, totalDebtUsd = 0, totalLendingDepositUsd = 0,
           balanceUsd = Some (0::rat)\<rparr>"
  have ov: "overview example_env ?ap = Inr [?z]"
    by (simp add: overview_def add_entry_def example_env_def example_entry_def seed_or_collapse_def
      new_summary_def add_balance_def add_asset_def add_lending_def shouldDisplay_def
      makerDAODSRSummary_def makerDAOVaultSummary_def
      protocolSummary_def store_special_def sortBy_def listed_def Object_values_def Let_def
      get_property_def Object_prototype_def)
  have names: "\<forall>x \<in> set (concat (map snd ?ap)). name (protocol x) \<notin> set Object_prototype"
    by (simp add: example_entry_def Object_prototype_def)
  from overview_listed[OF names, of example_env] obtain m out where
    m: "add_addresses example_env [] ?ap = Inr m" and
    out: "overview example_env ?ap = Inr out" and
    "\<forall>v \<in> set out. balanceUsd v \<noteq> None \<or> deposits v \<or> liabilities v" and
    eq: "set out = {v \<in> set (Object_values (add_lending example_env m)).
                  balanceUsd v \<noteq> None \<or> deposits v \<or> liabilities v}"
    by (elim exE conjE) (rule that, assumption+)
  from ov out have "out = [?z]" by simp
  with eq have "?z \<in> set (Object_values (add_lending example_env m))" by auto
  then have "\<exists>v \<in> set (Object_values (add_lending example_env m)).
            balanceUsd v = Some 0 \<and> \<not> deposits v \<and> \<not> liabilities v"
    by (intro bexI[of _ ?z]) simp_all
  with m ov show ?thesis by blast
qed

subsection \<open>The assets of a generic protocol\<close>

text \<open>
  C4: on the generic path, when the payload holds an \<open>Asset\<close> entry of protocol \<open>p\<close> with
  token address \<open>a\<close>, the summary of \<open>p\<close> has exactly one asset slot with that address; its
  amount and its USD value are the exact sums over all \<open>Asset\<close> entries of \<open>p\<close> with that
  address (for two such entries, the sum of the two). The slots stand in the order in which
  their addresses are first met: an entry with a new token address is appended. The payload
  has no protocol name inherited from \<open>Object.prototype\<close>, on which the loop throws.
\<close>

theorem generic_assets_sum:
  assumes "p \<notin> specials e"
    and "x \<in> set (concat (map snd ap))"
    and "name (protocol x) = p"
    and "balanceType x = Asset"
    and "tokenAddress (baseBalance x) = a"
    and "\<forall>x \<in> set (concat (map snd ap)). name (protocol x) \<notin> set Object_prototype"
  shows "\<exists>m s slot. add_addresses e [] ap = Inr m \<and> map_of m p = Some s \<and>
      filter (\<lambda>t. tokenAddress t = a) (assets s) = [slot] \<and>
      amount (balance slot) =
        sum_list (map (\<lambda>y. amount (balance (baseBalance y)))
                   (asset_entries_at p a (concat (map snd ap)))) \<and>
      usdValue (balance slot) =
        sum_list (map (\<lambda>y. usdValue (balance (baseBalance y)))
                   (asset_entries_at p a (concat (map snd ap)))) \<and>
      map tokenAddress (assets s) =
        uniqueStrings (map (\<lambda>y. tokenAddress (baseBalance y))
                         (asset_entries p (concat (map snd ap))))"
proof -
  let ?es = "concat (map snd ap)"
  let ?bs = "map baseBalance (asset_entries p ?es)"
  from add_addresses_total[OF assms(6), of e] obtain m where m: "add_addresses e [] ap = Inr m" by blast
  have x_in: "x \<in> set (asset_entries p ?es)"
    using assms by (simp add: asset_entries_def)
  then have "x \<in> set (entries_of p ?es)"
    by (simp add: asset_entries_def entries_of_def)
  then have "map_of m p \<noteq> None"
    using generic_present[OF m assms(1)] by auto
  then obtain s where s: "map_of m p = Some s" by auto
  have as: "assets s = foldl (\<lambda>ts b. merge_asset b ts) [] ?bs"
    by (rule generic_assets[OF m assms(1) s])
  have keys: "map tokenAddress (assets s) =
      uniqueStrings (map (\<lambda>y. tokenAddress (baseBalance y)) (asset_entries p ?es))"
    by (simp add: as foldl_merge_keys comp_def)
  have "a \<in> set (map (\<lambda>y. tokenAddress (baseBalance y)) (asset_entries p ?es))"
    using x_in assms(5) by force
  then have a_in: "a \<in> set (map tokenAddress (assets s))"
    by (simp only: keys set_uniqueStrings)
  have "distinct (map tokenAddress (assets s))"
    by (simp only: keys distinct_uniqueStrings)
  from single_slot[OF this a_in] obtain slot where
    slot: "filter (\<lambda>t. tokenAddress t = a) (assets s) = [slot]" by blast
  have at: "filter (\<lambda>t. tokenAddress t = a) ?bs = map baseBalance (asset_entries_at p a ?es)"
    by (simp add: asset_entries_at_def filter_map comp_def)
  have "sum_list (map (\<lambda>t. amount (balance t)) (filter (\<lambda>t. tokenAddress t = a) (assets s))) =
      sum_list (map (\<lambda>y. amount (balance (baseBalance y))) (asset_entries_at p a ?es))"
    unfolding as foldl_merge_amount at by (simp add: comp_def)
  then have amt: "amount (balance slot) =
      sum_list (map (\<lambda>y. amount (balance (baseBalance y))) (asset_entries_at p a ?es))"
    by (simp add: slot)
  have "sum_list (map (\<lambda>t. usdValue (balance t)) (filter (\<lambda>t. tokenAddress t = a) (assets s))) =
      sum_list (map (\<lambda>y. usdValue (balance (baseBalance y))) (asset_entries_at p a ?es))"
    unfolding as foldl_merge_usdValue at by (simp add: comp_def)
  then have usd: "usdValue (balance slot) =
      sum_list (map (\<lambda>y. usdValue (balance (baseBalance y))) (asset_entries_at p a ?es))"
    by (simp add: slot)
  from m s slot amt usd keys show ?thesis by blast
qed

text \<open>
  C4 on the example of the specification: the entries (0xA, 10, 100) and (0xA, 5, 50) of
  protocol X give one asset with amount 15 and USD value 150.
\<close>

theorem generic_assets_sum_witness:
  "\<exists>m s slot.
      add_addresses example_env []
        [(''0xabc'', [example_entry ''X'' Asset ''0xA'' ''Dai'' ''DAI'' 10 100,
                     example_entry ''X'' Asset ''0xA'' ''Dai'' ''DAI'' 5 50])] = Inr m \<and>
      map_of m ''X'' = Some s \<and>
      filter (\<lambda>t. tokenAddress t = ''0xA'') (assets s) = [slot] \<and>
      amount (balance slot) = 15 \<and> usdValue (balance slot) = 150 \<and>
      map tokenAddress (assets s) = [''0xA'']"
proof -
  let ?x = "example_entry ''X'' Asset ''0xA'' ''Dai'' ''DAI'' 10 100"
  let ?ap = "[(''0xabc'', [?x, example_entry ''X'' Asset ''0xA'' ''Dai'' ''DAI'' 5 50])]"
  have h1: "''X'' \<notin> specials example_env" by (simp add: example_specials)
  have h2: "?x \<in> set (concat (map snd ?ap))" by simp
  have h3: "name (protocol ?x) = ''X''" "balanceType ?x = Asset"
    "tokenAddress (baseBalance ?x) = ''0xA''"
    by (simp_all add: example_entry_def)
  have names: "\<forall>x \<in> set (concat (map snd ?ap)). name (protocol x) \<notin> set Object_prototype"
    by (simp add: example_entry_def Object_prototype_def)
  from generic_assets_sum[OF h1 h2 h3 names] show ?thesis
    by (simp add: asset_entries_at_def asset_entries_def example_entry_def)
qed

subsection \<open>The token of a generic protocol\<close>

text \<open>
  C5: during the generic accumulation, once the entries met so far (\<open>es\<close>) hold two entries
  of protocol \<open>p\<close> with different token names, the token of the summary of \<open>p\<close> is the
  "multiple assets" label with the empty symbol, and it stays so after any further entries
  (\<open>later\<close>), whatever their token names. No entry has a protocol name inherited from
  \<open>Object.prototype\<close>, on which the loop throws.
\<close>

theorem token_collapse_irreversible:
  assumes "p \<notin> specials e"
    and "x \<in> set es" "name (protocol x) = p"
    and "y \<in> set es" "name (protocol y) = p"
    and "tokenName (baseBalance x) \<noteq> tokenName (baseBalance y)"
    and "\<forall>z \<in> set (es @ later). name (protocol z) \<notin> set Object_prototype"
  shows "\<exists>m s. add_entries e [] (es @ later) = Inr m \<and> map_of m p = Some s \<and>
      tokenInfo s = Some \<lparr>tokenName = multiple_assets e, tokenSymbol = ''''\<rparr>"
proof -
  let ?all = "es @ later"
  from add_entries_total[OF generic_ok_empty assms(7), of e] obtain m where
    m: "add_entries e [] ?all = Inr m" by blast
  have gen: "map_of m p = summarize e (entries_of p ?all)"
    using add_entries_generic[OF generic_ok_empty m assms(1)]
    by (simp add: summarize_def entries_of_def)
  have xy: "x \<in> set (entries_of p ?all)" "y \<in> set (entries_of p ?all)"
    using assms by (simp_all add: entries_of_def)
  then obtain x0 rest where split: "entries_of p ?all = x0 # rest"
    by (cases "entries_of p ?all") auto
  then obtain s where s: "map_of m p = Some s"
    using gen summarize_None[of e "entries_of p ?all"] by (cases "map_of m p") auto
  have "\<not> (\<forall>z \<in> set rest. tokenName (baseBalance z) = tokenName (baseBalance x0))"
  proof
    assume all: "\<forall>z \<in> set rest. tokenName (baseBalance z) = tokenName (baseBalance x0)"
    from xy split have "x = x0 \<or> x \<in> set rest" "y = x0 \<or> y \<in> set rest" by auto
    with all have "tokenName (baseBalance x) = tokenName (baseBalance x0)"
      "tokenName (baseBalance y) = tokenName (baseBalance x0)" by auto
    with assms(6) show False by simp
  qed
  then have "token_display e (entries_of p ?all) =
      Some \<lparr>tokenName = multiple_assets e, tokenSymbol = ''''\<rparr>"
    unfolding split token_display.simps by (simp only: if_False)
  moreover have "summarize e (entries_of p ?all) = Some s"
    using gen s by simp
  ultimately have "tokenInfo s = Some \<lparr>tokenName = multiple_assets e, tokenSymbol = ''''\<rparr>"
    using summarize_tokenInfo[of e "entries_of p ?all"] by simp
  with m s show ?thesis by blast
qed

text \<open>
  C5 on three entries of protocol X named Dai, USD Coin and Dai again: the third entry,
  which matches the first name, does not bring the token back.
\<close>

theorem token_collapse_irreversible_witness:
  "\<exists>m s. add_entries example_env []
       ([example_entry ''X'' Asset ''0xA'' ''Dai'' ''DAI'' 10 100,
         example_entry ''X'' Asset ''0xB'' ''USD Coin'' ''USDC'' 5 5] @
        [example_entry ''X'' Asset ''0xA'' ''Dai'' ''DAI'' 1 10]) = Inr m \<and>
     map_of m ''X'' = Some s \<and>
     tokenInfo s = Some \<lparr>tokenName = ''Multiple assets'', tokenSymbol = ''''\<rparr>"
proof -
  let ?x = "example_entry ''X'' Asset ''0xA'' ''Dai'' ''DAI'' 10 100"
  let ?y = "example_entry ''X'' Asset ''0xB'' ''USD Coin'' ''USDC'' 5 5"
  have h1: "''X'' \<notin> specials example_env" by (simp add: example_specials)
  have hx: "?x \<in> set [?x, ?y]" "name (protocol ?x) = ''X''"
    and hy: "?y \<in> set [?x, ?y]" "name (protocol ?y) = ''X''"
    and ne: "tokenName (baseBalance ?x) \<noteq> tokenName (baseBalance ?y)"
    by (simp_all add: example_entry_def)
  have names: "\<forall>z \<in> set ([?x, ?y] @ [example_entry ''X'' Asset ''0xA'' ''Dai'' ''DAI'' 1 10]).
      name (protocol z) \<notin> set Object_prototype"
    by (simp add: example_entry_def Object_prototype_def)
  have "multiple_assets example_env = ''Multiple assets''" by (simp add: example_env_def)
  with token_collapse_irreversible[OF h1 hx hy ne names]
  show ?thesis by simp
qed

subsection \<open>Liability entries\<close>

text \<open>
  C10: for a protocol \<open>p\<close> on the generic path, the summary exists as soon as \<open>p\<close> has an
  entry; its token is decided by all the entries of \<open>p\<close>, \<open>Liability\<close> entries included, while
  its \<open>balanceUsd\<close> and its assets are decided by the \<open>Asset\<close> entries alone. When \<open>p\<close> has no
  \<open>Asset\<close> entry, the summary has \<open>balanceUsd\<close> unset, no assets and both flags false, and it
  does not occur in the output of \<open>overview\<close>. The payload has no protocol name inherited
  from \<open>Object.prototype\<close>, on which the loop throws.
\<close>

theorem liability_entries_ignored:
  assumes "p \<notin> specials e"
    and "\<forall>x \<in> set (concat (map snd ap)). name (protocol x) \<notin> set Object_prototype"
  shows "\<exists>m out. add_addresses e [] ap = Inr m \<and> overview e ap = Inr out \<and>
     (map_of m p = None \<longleftrightarrow> entries_of p (concat (map snd ap)) = []) \<and>
     (\<forall>s. map_of m p = Some s \<longrightarrow>
        tokenInfo s = token_display e (entries_of p (concat (map snd ap))) \<and>
        balanceUsd s =
          (if asset_entries p (concat (map snd ap)) = [] then None
           else Some (sum_list (map (\<lambda>x. usdValue (balance (baseBalance x)))
                        (asset_entries p (concat (map snd ap)))))) \<and>
        assets s = foldl (\<lambda>ts b. merge_asset b ts) []
                     (map baseBalance (asset_entries p (concat (map snd ap)))) \<and>
        \<not> deposits s \<and> \<not> liabilities s \<and>
        (asset_entries p (concat (map snd ap)) = [] \<longrightarrow>
           balanceUsd s = None \<and> assets s = [] \<and> s \<notin> set out))"
proof -
  let ?es = "concat (map snd ap)"
  from add_addresses_total[OF assms(2), of e] obtain m where m: "add_addresses e [] ap = Inr m" by blast
  define out where "out = filter listed (sortBy (\<lambda>v. name (protocol v)) (Object_values (add_lending e m)))"
  have out: "overview e ap = Inr out" by (simp add: overview_eq[OF m] out_def)
  have listed_out: "listed v" if "v \<in> set out" for v using that by (simp add: out_def)
  have facts: "tokenInfo s = token_display e (entries_of p ?es) \<and>
        balanceUsd s =
          (if asset_entries p ?es = [] then None
           else Some (sum_list (map (\<lambda>x. usdValue (balance (baseBalance x))) (asset_entries p ?es)))) \<and>
        assets s = foldl (\<lambda>ts b. merge_asset b ts) [] (map baseBalance (asset_entries p ?es)) \<and>
        \<not> deposits s \<and> \<not> liabilities s \<and>
        (asset_entries p ?es = [] \<longrightarrow> balanceUsd s = None \<and> assets s = [] \<and> s \<notin> set out)"
    if s: "map_of m p = Some s" for s
  proof -
    note b = generic_balanceUsd[OF m assms(1) s]
    note a = generic_assets[OF m assms(1) s]
    note f = generic_flags[OF m assms(1) s]
    note t = generic_tokenInfo[OF m assms(1) s]
    have "s \<notin> set out" if "asset_entries p ?es = []"
    proof
      assume "s \<in> set out"
      then have "listed s" by (rule listed_out)
      with that b f show False by (simp add: listed_def)
    qed
    with b a f t show ?thesis by simp
  qed
  have body: "\<forall>s. map_of m p = Some s \<longrightarrow>
        tokenInfo s = token_display e (entries_of p ?es) \<and>
        balanceUsd s =
          (if asset_entries p ?es = [] then None
           else Some (sum_list (map (\<lambda>x. usdValue (balance (baseBalance x))) (asset_entries p ?es)))) \<and>
        assets s = foldl (\<lambda>ts b. merge_asset b ts) [] (map baseBalance (asset_entries p ?es)) \<and>
        \<not> deposits s \<and> \<not> liabilities s \<and>
        (asset_entries p ?es = [] \<longrightarrow> balanceUsd s = None \<and> assets s = [] \<and> s \<notin> set out)"
    by (intro allI impI) (rule facts)
  note present = generic_present[OF m assms(1)]
  show ?thesis
    by (rule exI[of _ m], rule exI[of _ out]) (intro conjI m out present body)
qed

text \<open>
  C10 on a protocol X with two \<open>Liability\<close> entries of different tokens: the token collapses,
  nothing is summed, and the output is empty.
\<close>

theorem liability_entries_ignored_witness:
  "\<exists>m s.
     add_addresses example_env []
       [(''0xabc'', [example_entry ''X'' Liability ''0xA'' ''Dai'' ''DAI'' 10 100,
                    example_entry ''X'' Liability ''0xB'' ''USD Coin'' ''USDC'' 5 5])] = Inr m \<and>
     overview example_env
       [(''0xabc'', [example_entry ''X'' Liability ''0xA'' ''Dai'' ''DAI'' 10 100,
                    example_entry ''X'' Liability ''0xB'' ''USD Coin'' ''USDC'' 5 5])] = Inr [] \<and>
     map_of m ''X'' = Some s \<and>
     tokenInfo s = Some \<lparr>tokenName = ''Multiple assets'', tokenSymbol = ''''\<rparr> \<and>
     balanceUsd s = None \<and> assets s = [] \<and> \<not> deposits s \<and> \<not> liabilities s"
proof -
  let ?ap = "[(''0xabc'', [example_entry ''X'' Liability ''0xA'' ''Dai'' ''DAI'' 10 100,
                    example_entry ''X'' Liability ''0xB'' ''USD Coin'' ''USDC'' 5 5])]"
  have h: "''X'' \<notin> specials example_env" by (simp add: example_specials)
  have names: "\<forall>x \<in> set (concat (map snd ?ap)). name (protocol x) \<notin> set Object_prototype"
    by (simp add: example_entry_def Object_prototype_def)
  from liability_entries_ignored[OF h names] obtain m out where
    m: "add_addresses example_env [] ?ap = Inr m" and
    "overview example_env ?ap = Inr out" and
    present: "map_of m ''X'' = None \<longleftrightarrow> entries_of ''X'' (concat (map snd ?ap)) = []" and
    all: "\<forall>s. map_of m ''X'' = Some s \<longrightarrow>
        tokenInfo s = token_display example_env (entries_of ''X'' (concat (map snd ?ap))) \<and>
        balanceUsd s =
          (if asset_entries ''X'' (concat (map snd ?ap)) = [] then None
           else Some (sum_list (map (\<lambda>x. usdValue (balance (baseBalance x)))
                        (asset_entries ''X'' (concat (map snd ?ap)))))) \<and>
        assets s = foldl (\<lambda>ts b. merge_asset b ts) []
                     (map baseBalance (asset_entries ''X'' (concat (map snd ?ap)))) \<and>
        \<not> deposits s \<and> \<not> liabilities s \<and>
        (asset_entries ''X'' (concat (map snd ?ap)) = [] \<longrightarrow>
           balanceUsd s = None \<and> assets s = [] \<and> s \<notin> set out)"
    by (elim exE conjE) (rule that, assumption+)
  have facts: "tokenInfo s = token_display example_env (entries_of ''X'' (concat (map snd ?ap))) \<and>
        \<not> deposits s \<and> \<not> liabilities s \<and>
        (asset_entries ''X'' (concat (map snd ?ap)) = [] \<longrightarrow>
           balanceUsd s = None \<and> assets s = [] \<and> s \<notin> set out)"
    if "map_of m ''X'' = Some s" for s
    using all that by blast
  have "entries_of ''X'' (concat (map snd ?ap)) \<noteq> []"
    by (simp add: entries_of_def example_entry_def)
  with present obtain s where s: "map_of m ''X'' = Some s" by auto
  have none: "asset_entries ''X'' (concat (map snd ?ap)) = []"
    by (simp add: asset_entries_def example_entry_def)
  have td: "token_display example_env (entries_of ''X'' (concat (map snd ?ap))) =
      Some \<lparr>tokenName = ''Multiple assets'', tokenSymbol = ''''\<rparr>"
    by (simp add: entries_of_def example_entry_def example_env_def)
  have ov: "overview example_env ?ap = Inr []"
    by (simp add: overview_def add_entry_def example_env_def example_entry_def seed_or_collapse_def
      new_summary_def add_balance_def add_lending_def shouldDisplay_def collapsed_def
      makerDAODSRSummary_def makerDAOVaultSummary_def
      protocolSummary_def store_special_def sortBy_def listed_def Object_values_def Let_def
      get_property_def Object_prototype_def)
  from facts[OF s] none td m s ov show ?thesis by auto
qed

subsection \<open>The assembled map\<close>

















section \<open>Properties of the fetch operations\<close>

subsection \<open>One call\<close>

lemma fetchDefiBalances_cut:
  "fetchDefiBalances w refresh s =
     (case fetchDefiBalances_start refresh s of
        (s, Returned r) \<Rightarrow> (r, s)
      | (s, AwaitTask taskId) \<Rightarrow> (Fulfilled, s)
      | (s, AwaitSubmission) \<Rightarrow>
          (case fetchDefiBalances_submitted (fetchAllDefiCaller w) s of
             (s, Returned r) \<Rightarrow> (r, s)
           | (s, AwaitSubmission) \<Rightarrow> (Fulfilled, s)
           | (s, AwaitTask taskId) \<Rightarrow>
               (case fetchDefiBalances_settled (parse w) (awaitTask w taskId) s of
                  (s, Returned r) \<Rightarrow> (r, s)
                | (s, _) \<Rightarrow> (Fulfilled, s))))"
  by (simp add: fetchDefiBalances_def fetchDefiBalances_start_def fetchDefiBalances_submitted_def
      fetchDefiBalances_settled_def fetchDefiBalances_failed_def try_fetch_def Let_def
      split: sum.splits)

lemma try_fetch_Inl:
  "try_fetch w = Inl e \<longleftrightarrow>
     fetchAllDefiCaller w = Inl e \<or>
     (\<exists>taskId. fetchAllDefiCaller w = Inr taskId \<and>
        (awaitTask w taskId = Inl e \<or>
         (\<exists>result. awaitTask w taskId = Inr result \<and> parse w result = Inl e)))"
  by (auto simp: try_fetch_def split: sum.splits)

lemma fetchDefiBalances_failure:
  assumes "\<not> fetchDisabled refresh DEFI_BALANCES s" "try_fetch w = Inl e"
  shows "fetchDefiBalances w refresh s =
     (Fulfilled, setStatus LOADED DEFI_BALANCES (catch_fetch e (setStatus LOADING DEFI_BALANCES s)))"
  using assms by (simp add: fetchDefiBalances_def Let_def)

lemma catch_fetch_fields:
  "notifications (catch_fetch e s) = notifications s @
     [\<lparr>title = Tc ''actions.defi.balances.error.title'' [],
       message = Tc ''actions.defi.balances.error.description'' [(''error'', failure_message e)],
       display = True\<rparr>]"
  "allProtocols (catch_fetch e s) = allProtocols s"
  "status (catch_fetch e s) = status s"
  by (simp_all add: catch_fetch_def notify_def Let_def)

lemma setStatus_fields:
  "notifications (setStatus st sec s) = notifications s"
  "allProtocols (setStatus st sec s) = allProtocols s"
  "status (setStatus st sec s) = (status s)(sec := st)"
  by (simp_all add: setStatus_def)

text \<open>
  C2, as stated, fails: \<open>AllDefiProtocols.parse\<close> is called inside the \<open>try\<close> block, so a
  validation failure is caught. With a payload that fails validation the call is fulfilled,
  and the failure is shown as a notification.
\<close>

theorem schema_failure_counterexample:
  "parse invalid_backend ''{}'' = Inl (Failure ''Invalid input'') \<and>
   fst (fetchDefiBalances invalid_backend False idle_store) = Fulfilled \<and>
   notifications (snd (fetchDefiBalances invalid_backend False idle_store)) =
     [\<lparr>title = Tc ''actions.defi.balances.error.title'' [],
       message = Tc ''actions.defi.balances.error.description'' [(''error'', ''Invalid input'')],
       display = True\<rparr>]"
  by (simp add: fetchDefiBalances_def fetchDisabled_def in_flight_def try_fetch_def catch_fetch_def
      notify_def setStatus_def invalid_backend_def idle_store_def Let_def)

text \<open>
  C2, amended: in every call of \<open>fetchDefiBalances\<close> that passes the guard and whose payload
  fails schema validation, the failure does not leave the call: the returned promise is
  fulfilled, and the failure is converted into a displayed notification whose message carries
  the error message.
\<close>

theorem schema_failure_caught:
  assumes "\<not> fetchDisabled refresh DEFI_BALANCES s"
    and "fetchAllDefiCaller w = Inr taskId"
    and "awaitTask w taskId = Inr result"
    and "parse w result = Inl e"
  shows "fst (fetchDefiBalances w refresh s) = Fulfilled \<and>
     notifications (snd (fetchDefiBalances w refresh s)) = notifications s @
       [\<lparr>title = Tc ''actions.defi.balances.error.title'' [],
         message = Tc ''actions.defi.balances.error.description'' [(''error'', failure_message e)],
         display = True\<rparr>]"
proof -
  have "try_fetch w = Inl e" using assms(2-4) by (simp add: try_fetch_def)
  from fetchDefiBalances_failure[OF assms(1) this] show ?thesis
    by (simp add: catch_fetch_fields setStatus_fields)
qed

text \<open>
  C2, amended, on a forced refresh of a fresh store with a payload that fails validation.
\<close>

theorem schema_failure_caught_witness:
  "fst (fetchDefiBalances invalid_backend True idle_store) = Fulfilled \<and>
   notifications (snd (fetchDefiBalances invalid_backend True idle_store)) =
     [\<lparr>title = Tc ''actions.defi.balances.error.title'' [],
       message = Tc ''actions.defi.balances.error.description'' [(''error'', ''Invalid input'')],
       display = True\<rparr>]"
proof -
  have h: "\<not> fetchDisabled True DEFI_BALANCES idle_store"
    "fetchAllDefiCaller invalid_backend = Inr 7"
    "awaitTask invalid_backend 7 = Inr ''{}''"
    "parse invalid_backend ''{}'' = Inl (Failure ''Invalid input'')"
    by (simp_all add: fetchDisabled_def invalid_backend_def)
  from schema_failure_caught[OF h] show ?thesis by (simp add: idle_store_def)
qed

text \<open>
  C8: in every run of \<open>fetchDefiBalances\<close> that passes the guard and in which the submission,
  the awaited task or the validation of the payload fails with \<open>e\<close>, a displayed notification
  with the message of \<open>e\<close> is added, \<open>allProtocols\<close> keeps its value, and the section
  \<open>DEFI_BALANCES\<close> ends \<open>LOADED\<close>.
\<close>

theorem failed_fetch_keeps_data:
  assumes "\<not> fetchDisabled refresh DEFI_BALANCES s"
    and "fetchAllDefiCaller w = Inl e \<or>
         (\<exists>taskId. fetchAllDefiCaller w = Inr taskId \<and>
            (awaitTask w taskId = Inl e \<or>
             (\<exists>result. awaitTask w taskId = Inr result \<and> parse w result = Inl e)))"
  shows "notifications (snd (fetchDefiBalances w refresh s)) = notifications s @
       [\<lparr>title = Tc ''actions.defi.balances.error.title'' [],
         message = Tc ''actions.defi.balances.error.description'' [(''error'', failure_message e)],
         display = True\<rparr>] \<and>
     allProtocols (snd (fetchDefiBalances w refresh s)) = allProtocols s \<and>
     status (snd (fetchDefiBalances w refresh s)) DEFI_BALANCES = LOADED"
proof -
  have "try_fetch w = Inl e" using assms(2) by (simp only: try_fetch_Inl)
  from fetchDefiBalances_failure[OF assms(1) this] show ?thesis
    by (simp add: catch_fetch_fields setStatus_fields)
qed

text \<open>
  C8 on a fresh store and a task that fails with "timeout".
\<close>

theorem failed_fetch_keeps_data_witness:
  "notifications (snd (fetchDefiBalances unreachable_backend False idle_store)) =
       [\<lparr>title = Tc ''actions.defi.balances.error.title'' [],
         message = Tc ''actions.defi.balances.error.description'' [(''error'', ''timeout'')],
         display = True\<rparr>] \<and>
   allProtocols (snd (fetchDefiBalances unreachable_backend False idle_store)) = [] \<and>
   status (snd (fetchDefiBalances unreachable_backend False idle_store)) DEFI_BALANCES = LOADED"
proof -
  have h1: "\<not> fetchDisabled False DEFI_BALANCES idle_store"
    by (simp add: fetchDisabled_def in_flight_def idle_store_def)
  have h2: "fetchAllDefiCaller unreachable_backend = Inl (Failure ''timeout'') \<or>
         (\<exists>taskId. fetchAllDefiCaller unreachable_backend = Inr taskId \<and>
            (awaitTask unreachable_backend taskId = Inl (Failure ''timeout'') \<or>
             (\<exists>result. awaitTask unreachable_backend taskId = Inr result \<and>
                parse unreachable_backend result = Inl (Failure ''timeout''))))"
    by (simp add: unreachable_backend_def)
  from failed_fetch_keeps_data[OF h1 h2] show ?thesis by (simp add: idle_store_def)
qed

subsection \<open>Overlapping calls\<close>

lemma start_cases:
  assumes "fetchDefiBalances_start False s = (s', p)"
  shows "(p = Returned Fulfilled \<and> s' = s) \<or>
         (p = AwaitSubmission \<and> s' = setStatus LOADING DEFI_BALANCES s \<and>
          \<not> in_flight (status s DEFI_BALANCES))"
  using assms by (auto simp: fetchDefiBalances_start_def fetchDisabled_def split: if_splits)

lemma all_start_cases:
  assumes "fetchAllDefi_start False s = (s', p)"
  shows "(\<not> submitted (AllDefi False p) \<and> status s' DEFI_BALANCES = status s DEFI_BALANCES) \<or>
         (p = InBalances AwaitSubmission \<and> status s' DEFI_BALANCES = LOADING \<and>
          \<not> in_flight (status s DEFI_BALANCES))"
proof (cases "fetchDisabled False DEFI_OVERVIEW s")
  case True
  with assms show ?thesis by (auto simp: fetchAllDefi_start_def)
next
  case False
  let ?s1 = "setStatus LOADING DEFI_OVERVIEW s"
  obtain s2 q where inner: "fetchDefiBalances_start False ?s1 = (s2, q)"
    by (cases "fetchDefiBalances_start False ?s1")
  with False assms have eq: "s' = s2" "p = InBalances q"
    by (auto simp: fetchAllDefi_start_def Let_def)
  have same: "status ?s1 DEFI_BALANCES = status s DEFI_BALANCES"
    by (simp add: setStatus_def)
  from start_cases[OF inner] show ?thesis
    using eq same by (auto simp: setStatus_def)
qed

lemma resume_cases:
  assumes "resume parse' ev t s = Some (s', t')"
  shows "refresh_of t' = refresh_of t \<and>
     (if submitted t then (submitted t' \<and> s' = s) \<or> \<not> submitted t'
      else \<not> submitted t' \<and> status s' DEFI_BALANCES = status s DEFI_BALANCES)"
  using assms
  by (induction parse' ev t s rule: resume.induct)
     (auto simp: fetchDefiBalances_submitted_def fetchDefiBalances_settled_def
        fetchDefiBalances_failed_def fetchAllDefi_balances_done_def
        fetchAllDefi_adapters_settled_def setStatus_def Let_def
        split: sum.splits)

lemma step_refresh:
  assumes "step parse' c c'" "\<forall>t \<in> set (snd c'). \<not> refresh_of t"
  shows "\<forall>t \<in> set (snd c). \<not> refresh_of t"
  using assms
proof (induction rule: step.induct)
  case (wake ev t s s' t' before after)
  from resume_cases[OF wake.hyps] have "refresh_of t' = refresh_of t" by simp
  with wake.prems show ?case by auto
qed auto

lemma single_flight_step:
  assumes "step parse' c c'" "single_flight c" "\<forall>t \<in> set (snd c'). \<not> refresh_of t"
  shows "single_flight c'"
  using assms
proof (induction rule: step.induct)
  case (call_fetchDefiBalances refresh s s' p ts)
  then have r: "refresh = False" by simp
  from start_cases[OF call_fetchDefiBalances.hyps[unfolded r]]
  show ?case
  proof (elim disjE conjE)
    assume "p = Returned Fulfilled" "s' = s"
    with call_fetchDefiBalances.prems(1) show ?thesis by (simp add: single_flight_def)
  next
    assume a: "p = AwaitSubmission" "s' = setStatus LOADING DEFI_BALANCES s"
      "\<not> in_flight (status s DEFI_BALANCES)"
    then have "status s DEFI_BALANCES \<noteq> LOADING" by (auto simp: in_flight_def)
    with call_fetchDefiBalances.prems(1) have "filter submitted ts = []"
      by (auto simp: single_flight_def)
    with a show ?thesis by (simp add: single_flight_def setStatus_def)
  qed
next
  case (call_fetchAllDefi refresh s s' p ts)
  then have r: "refresh = False" by simp
  from all_start_cases[OF call_fetchAllDefi.hyps[unfolded r]]
  show ?case
  proof (elim disjE conjE)
    assume "\<not> submitted (AllDefi False p)" "status s' DEFI_BALANCES = status s DEFI_BALANCES"
    with call_fetchAllDefi.prems(1) show ?thesis by (simp add: single_flight_def r)
  next
    assume a: "p = InBalances AwaitSubmission" "status s' DEFI_BALANCES = LOADING"
      "\<not> in_flight (status s DEFI_BALANCES)"
    then have "status s DEFI_BALANCES \<noteq> LOADING" by (auto simp: in_flight_def)
    with call_fetchAllDefi.prems(1) have "filter submitted ts = []"
      by (auto simp: single_flight_def)
    with a show ?thesis by (simp add: single_flight_def)
  qed
next
  case (wake ev t s s' t' before after)
  note rc = resume_cases[OF wake.hyps]
  show ?case
  proof (cases "submitted t")
    case True
    with wake.prems(1) have none: "filter submitted before = []" "filter submitted after = []"
      and st: "status s DEFI_BALANCES = LOADING"
      by (simp_all add: single_flight_def)
    from rc True have "(submitted t' \<and> s' = s) \<or> \<not> submitted t'" by simp
    then show ?thesis
      using none st by (auto simp: single_flight_def)
  next
    case False
    with rc have "\<not> submitted t'" "status s' DEFI_BALANCES = status s DEFI_BALANCES" by simp_all
    with False wake.prems(1) show ?thesis
      by (simp add: single_flight_def)
  qed
next
  case (adapter st s ts ns)
  then show ?case by (simp add: single_flight_def)
qed

lemma single_flight_run:
  assumes "(step parse')\<^sup>*\<^sup>* c c'" "single_flight c" "\<forall>t \<in> set (snd c'). \<not> refresh_of t"
  shows "single_flight c'"
  using assms
proof (induction rule: rtranclp_induct)
  case base
  then show ?case by simp
next
  case (step y z)
  have "\<forall>t \<in> set (snd y). \<not> refresh_of t" by (rule step_refresh[OF step.hyps(2) step.prems(2)])
  with step.IH step.prems(1) have "single_flight y" by simp
  from single_flight_step[OF step.hyps(2) this step.prems(2)] show ?case .
qed

text \<open>
  C7: when the section \<open>DEFI_BALANCES\<close> is in flight, \<open>fetchDefiBalances(false)\<close> returns at
  once, fulfilled, with the state unchanged and nothing submitted; when the section
  \<open>DEFI_OVERVIEW\<close> is in flight, so does \<open>fetchAllDefi(false)\<close>. Hence, in every interleaving
  of calls of the two operations made with \<open>refresh = false\<close>, at most one call has an
  overview task submitted and not yet settled.
\<close>

theorem overview_fetch_single_flight:
  "(in_flight (status s DEFI_BALANCES) \<longrightarrow>
      fetchDefiBalances w False s = (Fulfilled, s) \<and>
      fetchDefiBalances_start False s = (s, Returned Fulfilled)) \<and>
   (in_flight (status s DEFI_OVERVIEW) \<longrightarrow>
      fetchAllDefi_start False s = (s, AllReturned Fulfilled)) \<and>
   ((step parse')\<^sup>*\<^sup>* (s0, []) (s1, ts) \<and> (\<forall>t \<in> set ts. \<not> refresh_of t) \<longrightarrow>
      length (filter submitted ts) \<le> 1)"
proof (intro conjI impI)
  assume "in_flight (status s DEFI_BALANCES)"
  then have g: "fetchDisabled False DEFI_BALANCES s" by (simp add: fetchDisabled_def)
  then show "fetchDefiBalances w False s = (Fulfilled, s)"
    by (simp add: fetchDefiBalances_def)
  from g show "fetchDefiBalances_start False s = (s, Returned Fulfilled)"
    by (simp add: fetchDefiBalances_start_def)
next
  assume "in_flight (status s DEFI_OVERVIEW)"
  then show "fetchAllDefi_start False s = (s, AllReturned Fulfilled)"
    by (simp add: fetchAllDefi_start_def fetchDisabled_def)
next
  assume a: "(step parse')\<^sup>*\<^sup>* (s0, []) (s1, ts) \<and> (\<forall>t \<in> set ts. \<not> refresh_of t)"
  have "single_flight (s0, [])" by (simp add: single_flight_def)
  with a have "single_flight (s1, ts)"
    using single_flight_run[of parse' "(s0, [])" "(s1, ts)"] by simp
  then show "length (filter submitted ts) \<le> 1" by (simp add: single_flight_def)
qed

text \<open>
  C7 on two overlapping calls of \<open>fetchDefiBalances(false)\<close> on a fresh store: the first
  submits, the second returns at once.
\<close>

theorem overview_fetch_single_flight_witness:
  "fetchDefiBalances unreachable_backend False loading_store = (Fulfilled, loading_store) \<and>
   (step reject_all)\<^sup>*\<^sup>* (idle_store, [])
      (loading_store, [Balances False AwaitSubmission, Balances False (Returned Fulfilled)]) \<and>
   length (filter submitted [Balances False AwaitSubmission, Balances False (Returned Fulfilled)]) \<le> 1"
proof -
  have fl: "in_flight (status loading_store DEFI_BALANCES)"
    by (simp add: loading_store_def setStatus_def in_flight_def)
  have first: "fetchDefiBalances_start False idle_store = (loading_store, AwaitSubmission)"
    by (simp add: fetchDefiBalances_start_def fetchDisabled_def in_flight_def idle_store_def
        loading_store_def)
  have second: "fetchDefiBalances_start False loading_store = (loading_store, Returned Fulfilled)"
    using fl by (simp add: fetchDefiBalances_start_def fetchDisabled_def)
  have s1: "step reject_all (idle_store, []) (loading_store, [] @ [Balances False AwaitSubmission])"
    by (rule step.call_fetchDefiBalances[OF first])
  have s2: "step reject_all (loading_store, [Balances False AwaitSubmission])
      (loading_store, [Balances False AwaitSubmission] @ [Balances False (Returned Fulfilled)])"
    by (rule step.call_fetchDefiBalances[OF second])
  have run: "(step reject_all)\<^sup>*\<^sup>* (idle_store, [])
      (loading_store, [Balances False AwaitSubmission, Balances False (Returned Fulfilled)])"
    using s1 s2 by (simp add: rtranclp.rtrancl_into_rtrancl)
  have flags: "\<forall>t \<in> set [Balances False AwaitSubmission, Balances False (Returned Fulfilled)].
      \<not> refresh_of t" by simp
  note inst = overview_fetch_single_flight[of loading_store unreachable_backend reject_all idle_store
      loading_store "[Balances False AwaitSubmission, Balances False (Returned Fulfilled)]"]
  from inst fl have a: "fetchDefiBalances unreachable_backend False loading_store = (Fulfilled, loading_store)"
    by blast
  from inst run flags
  have b: "length (filter submitted [Balances False AwaitSubmission, Balances False (Returned Fulfilled)]) \<le> 1"
    by blast
  from a run b show ?thesis by (intro conjI)
qed

end
